theory Spec2Isabelle
  imports Main "HOL-Library.Sublist"
begin

section \<open>Python values used by the scripts\<close>

text \<open>
  The repository holds three Python scripts: \<^verbatim>\<open>reddit_scraper.py\<close> (the configurable
  scraper), \<^verbatim>\<open>subredditScraper.py\<close> (the minimal scraper) and \<^verbatim>\<open>dataset_merger.py\<close>.
  Strings are lists of characters. In the scrapers an Isabelle \<^typ>\<open>char\<close> is read as a
  code point in the range U+0000 .. U+00FF; \<open>isspace\<close> and \<open>lower\<close> are Python's
  \<^verbatim>\<open>str.isspace\<close> and \<^verbatim>\<open>str.lower\<close> on that range. The merge utility handles files of any
  content: there a \<^typ>\<open>char\<close> is a byte of a file, and the text decoded from the bytes is
  a list of code points.
\<close>

definition LF :: char where
  "LF = CHR 0x0A"

definition CR :: char where
  "CR = CHR 0x0D"

definition isspace :: "char \<Rightarrow> bool" where
  \<comment> \<open>tab, line feed, vertical tab, form feed, carriage return, the four separators
      U+001C .. U+001F, space, next line U+0085 and no-break space U+00A0\<close>
  "isspace c =
     (let n = (of_char c :: nat)
      in (9 \<le> n \<and> n \<le> 13) \<or> (28 \<le> n \<and> n \<le> 32) \<or> n = 133 \<or> n = 160)"

definition lower_char :: "char \<Rightarrow> char" where
  \<comment> \<open>A .. Z and the Latin-1 capitals U+00C0 .. U+00DE without the multiplication sign\<close>
  "lower_char c =
     (let n = (of_char c :: nat)
      in if (65 \<le> n \<and> n \<le> 90) \<or> (192 \<le> n \<and> n \<le> 222 \<and> n \<noteq> 215)
         then char_of (n + 32) else c)"

definition lower :: "string \<Rightarrow> string" where
  "lower s = map lower_char s"

definition strip :: "string \<Rightarrow> string" where
  \<comment> \<open>\<^verbatim>\<open>s.strip()\<close>: whitespace removed at both ends\<close>
  "strip s = rev (dropWhile isspace (rev (dropWhile isspace s)))"

fun replace_nonempty :: "string \<Rightarrow> string \<Rightarrow> string \<Rightarrow> string" where
  "replace_nonempty old new [] = []"
| "replace_nonempty old new (c # cs) =
     (if prefix old (c # cs)
      then new @ replace_nonempty old new (drop (length old - 1) cs)
      else c # replace_nonempty old new cs)"

definition replace :: "string \<Rightarrow> string \<Rightarrow> string \<Rightarrow> string" where
  \<comment> \<open>\<^verbatim>\<open>s.replace(old, new)\<close>: every occurrence of \<open>old\<close>, found from the left
      and not overlapping, becomes \<open>new\<close>; an empty \<open>old\<close> matches before every
      character and at the end\<close>
  "replace old new s =
     (if old = [] then new @ concat (map (\<lambda>c. c # new) s)
      else replace_nonempty old new s)"

fun join :: "string \<Rightarrow> string list \<Rightarrow> string" where
  "join sep [] = []"
| "join sep [x] = x"
| "join sep (x # y # ys) = x @ sep @ join sep (y # ys)"

definition slice_to :: "int \<Rightarrow> 'a list \<Rightarrow> 'a list" where
  \<comment> \<open>\<^verbatim>\<open>xs[:n]\<close>; a negative \<open>n\<close> counts from the end and is clamped at the start\<close>
  "slice_to n xs =
     (if 0 \<le> n then take (nat n) xs else take (nat (int (length xs) + n)) xs)"

definition sorted_reverse :: "('a \<Rightarrow> int) \<Rightarrow> 'a list \<Rightarrow> 'a list" where
  \<comment> \<open>\<^verbatim>\<open>sorted(xs, key=key, reverse=True)\<close> on integer keys. Python documents the
      sort as stable, also under \<^verbatim>\<open>reverse=True\<close>: elements with equal keys keep their
      original order. That is the stable ascending sort on the negated key.\<close>
  "sorted_reverse key xs = sort_key (\<lambda>x. - key x) xs"

datatype exn =
    ProviderError string
  | AttributeError string
  | ValueError string
  | RuntimeError string
  | FileNotFoundError string
  | PermissionError string
  | UnicodeDecodeError string
  | UnicodeEncodeError string

text \<open>
  An iterable handed out by the API client: each step yields an element, ends the
  iteration, or raises.
\<close>

datatype 'a py_iter = Exhausted | Yield 'a "'a py_iter" | Raises exn

fun iter_list :: "'a py_iter \<Rightarrow> exn + 'a list" where
  "iter_list Exhausted = Inr []"
| "iter_list (Raises e) = Inl e"
| "iter_list (Yield x rest) =
     (case iter_list rest of Inl e \<Rightarrow> Inl e | Inr xs \<Rightarrow> Inr (x # xs))"

text \<open>
  An attribute of a remote object is absent or present; a present attribute may hold
  \<^verbatim>\<open>None\<close>, which the option type of the field's value expresses.
\<close>

datatype 'a attr = Absent | Present 'a

definition getattr :: "'a attr \<Rightarrow> 'a \<Rightarrow> 'a" where
  "getattr a dflt = (case a of Absent \<Rightarrow> dflt | Present v \<Rightarrow> v)"

section \<open>The text sanitizer\<close>

definition redact_text :: "string \<Rightarrow> string" where
  "redact_text text =
     (if text = [] then []
      else strip (replace ''[removed]'' [] (replace ''[deleted]'' [] text)))"

section \<open>Comments and posts\<close>

text \<open>
  The timestamp \<^verbatim>\<open>created_utc\<close> is a float that the scripts only copy; its type is
  the parameter \<open>'t\<close>.
\<close>

record 't comment =
  comment_id :: string
  comment_body :: "string option attr"
  comment_score :: "int option attr"
  comment_created_utc :: "'t option attr"
  comment_is_submitter :: "bool attr"

datatype 't node = MoreComments | Comment "'t comment"

text \<open>
  A post handle. \<open>replace_more\<close> is the exception that
  \<^verbatim>\<open>post.comments.replace_more(limit=0)\<close> raises, if any; \<open>comments\<close> is what iterating
  \<^verbatim>\<open>post.comments\<close> yields after that call.
\<close>

record 't post =
  post_id :: string
  post_title :: string
  post_selftext :: "string attr"
  post_score :: "int option attr"
  post_created_utc :: "'t option attr"
  post_num_comments :: "int option attr"
  post_permalink :: "string option attr"
  replace_more :: "exn option"
  comments :: "'t node py_iter"

text \<open>The dictionary built for each retained comment.\<close>

record 't comment_rec =
  rec_id :: string
  rec_body :: string
  rec_score :: "int option"
  rec_created_utc :: "'t option"
  rec_is_submitter :: bool

datatype log_entry =
    ScrapingStarted string string string int int
  | UnknownSort string
  | ReplaceMoreFailed string exn
  | SubmissionError "string option" exn
  | Saved nat

section \<open>The comment extractor\<close>

definition is_sentinel :: "string \<Rightarrow> bool" where
  \<comment> \<open>\<^verbatim>\<open>body.strip().lower() in ("[deleted]", "[removed]")\<close>\<close>
  "is_sentinel body =
     (lower (strip body) = ''[deleted]'' \<or> lower (strip body) = ''[removed]'')"

definition comment_dict :: "'t comment \<Rightarrow> string \<Rightarrow> 't comment_rec" where
  "comment_dict c body =
     \<lparr>rec_id = comment_id c,
      rec_body = redact_text body,
      rec_score = getattr (comment_score c) (Some 0),
      rec_created_utc = getattr (comment_created_utc c) None,
      rec_is_submitter = getattr (comment_is_submitter c) False\<rparr>"

fun collect_comments ::
  "'t node py_iter \<Rightarrow> 't comment_rec list \<Rightarrow> exn + 't comment_rec list" where
  "collect_comments Exhausted acc = Inr acc"
| "collect_comments (Raises e) acc = Inl e"
| "collect_comments (Yield MoreComments rest) acc = collect_comments rest acc"
| "collect_comments (Yield (Comment c) rest) acc =
     (case getattr (comment_body c) None of
        None \<Rightarrow> collect_comments rest acc
      | Some body \<Rightarrow>
          if body = [] then collect_comments rest acc
          else if is_sentinel body then collect_comments rest acc
          else collect_comments rest (acc @ [comment_dict c body]))"

definition score_key :: "'t comment_rec \<Rightarrow> int" where
  \<comment> \<open>\<^verbatim>\<open>x["score"] if x["score"] is not None else 0\<close>\<close>
  "score_key x = (case rec_score x of Some s \<Rightarrow> s | None \<Rightarrow> 0)"

definition extract_top_comments ::
  "'t post \<Rightarrow> int \<Rightarrow> log_entry list \<times> (exn + 't comment_rec list)" where
  \<comment> \<open>the warnings logged, and the list returned or the exception raised\<close>
  "extract_top_comments post top_n =
     (let warnings =
        (case replace_more post of
           Some e \<Rightarrow> [ReplaceMoreFailed (post_id post) e]
         | None \<Rightarrow> [])
      in (warnings,
          case collect_comments (comments post) [] of
            Inl e \<Rightarrow> Inl e
          | Inr cs \<Rightarrow> Inr (slice_to top_n (sorted_reverse score_key cs))))"

section \<open>The scraper\<close>

record 't post_data =
  pd_id :: string
  pd_title :: string
  pd_selftext :: string
  pd_score :: "int option"
  pd_created_utc :: "'t option"
  pd_num_comments :: "int option"
  pd_permalink :: "string option"
  pd_top_comments :: "'t comment_rec list"

record 't csv_row =
  row_id :: string
  row_title :: string
  row_selftext :: string
  row_top_comments :: string
  row_score :: "int option"
  row_num_comments :: "int option"
  row_created_utc :: "'t option"
  row_permalink :: "string option"

text \<open>
  The state of a run: the JSONL file handle (closed or not, and the objects written to it,
  one per line), the buffered CSV rows, the counter and the log.
\<close>

record 't scrape_state =
  jsonl_closed :: bool
  jsonl_lines :: "'t post_data list"
  rows :: "'t csv_row list"
  count :: nat
  log :: "log_entry list"

definition make_post_data :: "'t post \<Rightarrow> 't comment_rec list \<Rightarrow> 't post_data" where
  "make_post_data post top_comments_list =
     \<lparr>pd_id = post_id post,
      pd_title = redact_text (post_title post),
      pd_selftext = redact_text (getattr (post_selftext post) []),
      pd_score = getattr (post_score post) None,
      pd_created_utc = getattr (post_created_utc post) None,
      pd_num_comments = getattr (post_num_comments post) None,
      pd_permalink = getattr (post_permalink post) None,
      pd_top_comments = top_comments_list\<rparr>"

definition comments_flat :: "'t comment_rec list \<Rightarrow> string" where
  "comments_flat top_comments_list =
     join '' ||| ''
       (map (\<lambda>c. replace [CR] [] (replace [LF] [] (rec_body c))) top_comments_list)"

definition make_row :: "'t post_data \<Rightarrow> 't csv_row" where
  "make_row post_data =
     \<lparr>row_id = pd_id post_data,
      row_title = pd_title post_data,
      row_selftext = pd_selftext post_data,
      row_top_comments = comments_flat (pd_top_comments post_data),
      row_score = pd_score post_data,
      row_num_comments = pd_num_comments post_data,
      row_created_utc = pd_created_utc post_data,
      row_permalink = pd_permalink post_data\<rparr>"

definition try_block ::
  "int \<Rightarrow> 't scrape_state \<Rightarrow> 't post \<Rightarrow> ('t scrape_state \<times> exn) + 't scrape_state" where
  \<comment> \<open>the body of the \<^verbatim>\<open>try\<close>: the state reached, with the exception when one is raised.
      Writing to a closed file raises \<^verbatim>\<open>ValueError\<close>.\<close>
  "try_block top_comments st post =
     (case extract_top_comments post top_comments of
        (warnings, r) \<Rightarrow>
          (let st1 = st\<lparr>log := log st @ warnings\<rparr>
           in (case r of
                 Inl e \<Rightarrow> Inl (st1, e)
               | Inr top_comments_list \<Rightarrow>
                   (let post_data = make_post_data post top_comments_list
                    in (if pd_title post_data \<noteq> [] then
                          (if jsonl_closed st1
                           then Inl (st1, ValueError ''I/O operation on closed file.'')
                           else Inr (st1\<lparr>jsonl_lines := jsonl_lines st1 @ [post_data],
                                         rows := rows st1 @ [make_row post_data],
                                         count := count st1 + 1\<rparr>))
                        else Inr st1)))))"

definition except_block :: "'t scrape_state \<Rightarrow> 't post \<Rightarrow> exn \<Rightarrow> 't scrape_state" where
  \<comment> \<open>\<^verbatim>\<open>jsonl_f.close()\<close>, then \<^verbatim>\<open>logger.exception\<close>\<close>
  "except_block st post e =
     st\<lparr>jsonl_closed := True, log := log st @ [SubmissionError (Some (post_id post)) e]\<rparr>"

definition process_post :: "int \<Rightarrow> 't scrape_state \<Rightarrow> 't post \<Rightarrow> 't scrape_state" where
  "process_post top_comments st post =
     (case try_block top_comments st post of
        Inl (st1, e) \<Rightarrow> except_block st1 post e
      | Inr st' \<Rightarrow> st')"

fun scrape_loop ::
  "int \<Rightarrow> 't post py_iter \<Rightarrow> 't scrape_state \<Rightarrow> 't scrape_state \<times> exn option" where
  \<comment> \<open>the \<^verbatim>\<open>for\<close> loop over the listing; an exception of the listing itself is outside
      the \<^verbatim>\<open>try\<close> and ends the run\<close>
  "scrape_loop top_comments Exhausted st = (st, None)"
| "scrape_loop top_comments (Raises e) st = (st, Some e)"
| "scrape_loop top_comments (Yield post rest) st =
     scrape_loop top_comments rest (process_post top_comments st post)"

record 't subreddit =
  sub_top :: "string \<Rightarrow> int \<Rightarrow> 't post py_iter"
  sub_hot :: "int \<Rightarrow> 't post py_iter"
  sub_new :: "int \<Rightarrow> 't post py_iter"
  sub_rising :: "int \<Rightarrow> 't post py_iter"

record 't reddit_env =
  credentials :: bool
  subreddit :: "string \<Rightarrow> 't subreddit"

text \<open>
  The result of a run: the final state, the CSV file when it was written, and the
  exception that ended the run, if any.
\<close>

record 't run =
  final :: "'t scrape_state"
  csv_file :: "'t csv_row list option"
  raised :: "exn option"

definition initial_state :: "'t scrape_state" where
  "initial_state = \<lparr>jsonl_closed = False, jsonl_lines = [], rows = [], count = 0, log = []\<rparr>"

definition select_listing ::
  "'t subreddit \<Rightarrow> string \<Rightarrow> string \<Rightarrow> int \<Rightarrow> log_entry list \<times> 't post py_iter" where
  "select_listing sub sort_mode time_filter limit =
     (if sort_mode = ''top'' then ([], sub_top sub time_filter limit)
      else if sort_mode = ''hot'' then ([], sub_hot sub limit)
      else if sort_mode = ''new'' then ([], sub_new sub limit)
      else if sort_mode = ''rising'' then ([], sub_rising sub limit)
      else ([UnknownSort sort_mode], sub_top sub time_filter limit))"

definition scrape_subreddit ::
  "'t reddit_env \<Rightarrow> string \<Rightarrow> string \<Rightarrow> string \<Rightarrow> int \<Rightarrow> int \<Rightarrow> 't run" where
  "scrape_subreddit env subreddit_name sort_mode time_filter limit top_comments =
     (if \<not> credentials env then
        \<lparr>final = initial_state, csv_file = None,
         raised = Some (RuntimeError ''Missing Reddit credentials in environment.'')\<rparr>
      else
        (case select_listing (subreddit env subreddit_name) (lower sort_mode)
                time_filter limit of
           (warnings, iteratable_results) \<Rightarrow>
             (let st0 = initial_state
                    \<lparr>log := [ScrapingStarted subreddit_name sort_mode time_filter limit
                                top_comments] @ warnings\<rparr>
              in (case scrape_loop top_comments iteratable_results st0 of
                    (st, Some e) \<Rightarrow> \<lparr>final = st, csv_file = None, raised = Some e\<rparr>
                  | (st, None) \<Rightarrow>
                      \<lparr>final = st\<lparr>jsonl_closed := True,
                                  log := log st @ [Saved (count st)]\<rparr>,
                       csv_file = Some (rows st), raised = None\<rparr>))))"

section \<open>The minimal scraper\<close>

record minimal_row =
  m_title :: string
  m_selftext :: string
  m_comments :: "string option list"

fun bodies :: "'t node list \<Rightarrow> exn + string option list" where
  \<comment> \<open>\<^verbatim>\<open>[c.body for c in ...]\<close>: an object without the attribute raises\<close>
  "bodies [] = Inr []"
| "bodies (MoreComments # cs) = Inl (AttributeError ''body'')"
| "bodies (Comment c # cs) =
     (case comment_body c of
        Absent \<Rightarrow> Inl (AttributeError ''body'')
      | Present b \<Rightarrow>
          (case bodies cs of Inl e \<Rightarrow> Inl e | Inr bs \<Rightarrow> Inr (b # bs)))"

definition minimal_top_comments :: "'t post \<Rightarrow> exn + string option list" where
  \<comment> \<open>\<^verbatim>\<open>submission.comments.replace_more(limit=0)\<close>, not guarded, then
      \<^verbatim>\<open>[c.body for c in submission.comments[:5]]\<close>\<close>
  "minimal_top_comments submission =
     (case replace_more submission of
        Some e \<Rightarrow> Inl e
      | None \<Rightarrow>
          (case iter_list (comments submission) of
             Inl e \<Rightarrow> Inl e
           | Inr forest \<Rightarrow> bodies (take 5 forest)))"

fun minimal_scraper :: "'t post py_iter \<Rightarrow> minimal_row list \<Rightarrow> exn + minimal_row list" where
  "minimal_scraper Exhausted data = Inr data"
| "minimal_scraper (Raises e) data = Inl e"
| "minimal_scraper (Yield submission rest) data =
     (case minimal_top_comments submission of
        Inl e \<Rightarrow> Inl e
      | Inr top_comments \<Rightarrow>
          (case post_selftext submission of
             Absent \<Rightarrow> Inl (AttributeError ''selftext'')
           | Present selftext \<Rightarrow>
               minimal_scraper rest
                 (data @ [\<lparr>m_title = post_title submission, m_selftext = selftext,
                            m_comments = top_comments\<rparr>])))"

section \<open>The merge utility\<close>

text \<open>
  A file system gives, for a file name, what opening the file for reading and reading it
  to its end yields: the bytes of the file, a byte being a \<^typ>\<open>char\<close>, or the exception
  raised (\<^verbatim>\<open>FileNotFoundError\<close> for a missing file, \<^verbatim>\<open>PermissionError\<close> for one that may not be
  read). Opening the output file and writing to it is taken to succeed. The script opens its files in text mode with \<^verbatim>\<open>encoding="utf-8"\<close> and the
  default \<^verbatim>\<open>newline=None\<close>, so the text it handles is a list of Unicode code points:
  \<^item> \<^verbatim>\<open>infile.read()\<close> decodes the bytes as UTF-8 with the strict error handler, which
    raises \<^verbatim>\<open>UnicodeDecodeError\<close> unless the bytes are well-formed UTF-8 (no overlong form,
    no surrogate, nothing above U+10FFFF), and then translates \<^verbatim>\<open>\r\n\<close> and a lone \<^verbatim>\<open>\r\<close>
    into \<^verbatim>\<open>\n\<close> (universal newlines);
  \<^item> \<^verbatim>\<open>outfile.write(s)\<close> turns every \<^verbatim>\<open>\n\<close> of \<open>s\<close> into the platform's line separator
    \<^verbatim>\<open>os.linesep\<close>, a parameter here, and encodes the result as UTF-8, which raises
    \<^verbatim>\<open>UnicodeEncodeError\<close> on a surrogate.
\<close>

type_synonym unicode = "nat list"

type_synonym filesystem = "string \<Rightarrow> exn + string"

definition continuation :: "nat \<Rightarrow> bool" where
  "continuation b = (128 \<le> b \<and> b \<le> 191)"

definition scalar_value :: "nat \<Rightarrow> bool" where
  "scalar_value cp = (cp \<le> 1114111 \<and> \<not> (55296 \<le> cp \<and> cp \<le> 57343))"

fun decode_bytes :: "nat list \<Rightarrow> unicode option" where
  "decode_bytes [] = Some []"
| "decode_bytes (b # bs) =
     (if b < 128 then map_option ((#) b) (decode_bytes bs)
      else if 194 \<le> b \<and> b \<le> 223 then
        (case bs of
           c1 # rest \<Rightarrow>
             if continuation c1
             then map_option ((#) ((b - 192) * 64 + (c1 - 128))) (decode_bytes rest)
             else None
         | _ \<Rightarrow> None)
      else if 224 \<le> b \<and> b \<le> 239 then
        (case bs of
           c1 # c2 # rest \<Rightarrow>
             (let cp = (b - 224) * 4096 + (c1 - 128) * 64 + (c2 - 128)
              in if continuation c1 \<and> continuation c2 \<and> 2048 \<le> cp \<and> scalar_value cp
                 then map_option ((#) cp) (decode_bytes rest)
                 else None)
         | _ \<Rightarrow> None)
      else if 240 \<le> b \<and> b \<le> 244 then
        (case bs of
           c1 # c2 # c3 # rest \<Rightarrow>
             (let cp = (b - 240) * 262144 + (c1 - 128) * 4096 + (c2 - 128) * 64 + (c3 - 128)
              in if continuation c1 \<and> continuation c2 \<and> continuation c3 \<and>
                    65536 \<le> cp \<and> scalar_value cp
                 then map_option ((#) cp) (decode_bytes rest)
                 else None)
         | _ \<Rightarrow> None)
      else None)"

definition utf8_decode :: "string \<Rightarrow> unicode option" where
  "utf8_decode bs = decode_bytes (map of_char bs)"

definition encode_code_point :: "nat \<Rightarrow> nat list" where
  "encode_code_point cp =
     (if cp < 128 then [cp]
      else if cp < 2048 then [192 + cp div 64, 128 + cp mod 64]
      else if cp < 65536 then [224 + cp div 4096, 128 + cp div 64 mod 64, 128 + cp mod 64]
      else [240 + cp div 262144, 128 + cp div 4096 mod 64, 128 + cp div 64 mod 64,
            128 + cp mod 64])"

definition utf8_bytes :: "unicode \<Rightarrow> string" where
  "utf8_bytes t = map char_of (concat (map encode_code_point t))"

definition utf8_encode :: "unicode \<Rightarrow> exn + string" where
  "utf8_encode t =
     (if list_all scalar_value t then Inr (utf8_bytes t)
      else Inl (UnicodeEncodeError ''utf-8''))"

text \<open>
  The output file is written through a buffer. What a read of the output file's name
  returns while the script runs is the part of the written bytes that has reached the
  file by then, which the buffering decides: the parameter \<open>visible\<close>, applied to the
  bytes written so far. Closing the output file, at the end of the \<^verbatim>\<open>with\<close> block or when
  an exception leaves it, stores all the written bytes.
\<close>

fun read_text :: "unicode \<Rightarrow> unicode" where
  "read_text [] = []"
| "read_text [c] = (if c = 13 then [10] else [c])"
| "read_text (c # d # ds) =
     (if c = 13 \<and> d = 10 then 10 # read_text ds
      else if c = 13 then 10 # read_text (d # ds)
      else c # read_text (d # ds))"

definition write_text :: "unicode \<Rightarrow> unicode \<Rightarrow> unicode" where
  "write_text linesep s = concat (map (\<lambda>c. if c = 10 then linesep else [c]) s)"

definition infile_read ::
  "(string \<Rightarrow> string) \<Rightarrow> string \<Rightarrow> filesystem \<Rightarrow> string \<Rightarrow> string \<Rightarrow> exn + unicode" where
  \<comment> \<open>\<^verbatim>\<open>open(fname, "r", encoding="utf-8")\<close> and \<^verbatim>\<open>infile.read()\<close>, after \<open>written\<close> was
      written to the output file \<open>out\<close>\<close>
  "infile_read visible out fs written fname =
     (case (if fname = out then Inr (visible written) else fs fname) of
        Inl e \<Rightarrow> Inl e
      | Inr content \<Rightarrow>
          (case utf8_decode content of
             None \<Rightarrow> Inl (UnicodeDecodeError ''utf-8'')
           | Some t \<Rightarrow> Inr (read_text t)))"

definition outfile_write :: "unicode \<Rightarrow> unicode \<Rightarrow> string \<Rightarrow> exn + string" where
  \<comment> \<open>\<^verbatim>\<open>outfile.write(s)\<close>: the bytes written to the output file so far, extended\<close>
  "outfile_write linesep s written =
     (case utf8_encode (write_text linesep s) of
        Inl e \<Rightarrow> Inl e
      | Inr data \<Rightarrow> Inr (written @ data))"

fun merge_loop ::
  "(string \<Rightarrow> string) \<Rightarrow> unicode \<Rightarrow> string list \<Rightarrow> string \<Rightarrow> filesystem \<Rightarrow> string \<Rightarrow>
     string \<times> exn option" where
  "merge_loop visible linesep [] out fs written = (written, None)"
| "merge_loop visible linesep (fname # rest) out fs written =
     (case infile_read visible out fs written fname of
        Inl e \<Rightarrow> (written, Some e)
      | Inr s \<Rightarrow>
          (case outfile_write linesep s written of
             Inl e \<Rightarrow> (written, Some e)
           | Inr written1 \<Rightarrow>
               (case outfile_write linesep [10] written1 of
                  Inl e \<Rightarrow> (written1, Some e)
                | Inr written2 \<Rightarrow> merge_loop visible linesep rest out fs written2)))"

definition merge_script ::
  "(string \<Rightarrow> string) \<Rightarrow> unicode \<Rightarrow> string list \<Rightarrow> string \<Rightarrow> filesystem \<Rightarrow>
     filesystem \<times> (exn + nat)" where
  \<comment> \<open>the script for a list of inputs and an output name: the file system it leaves,
      and the count it prints or the exception that ends it\<close>
  "merge_script visible linesep fnames out fs =
     (case merge_loop visible linesep fnames out fs [] of
        (written, Some e) \<Rightarrow> (fs(out := Inr written), Inl e)
      | (written, None) \<Rightarrow> (fs(out := Inr written), Inr (length fnames)))"

definition files :: "string list" where
  "files =
     [''dataset_soccer_top_all_250.jsonl'',
      ''dataset_soccer_top_year_250.jsonl'',
      ''dataset_soccercirclejerk_top_all_250.jsonl'',
      ''dataset_soccercirclejerk_top_month_250.jsonl'',
      ''dataset_soccercirclejerk_top_year_250.jsonl'']"

definition output_file :: string where
  "output_file = ''merged_datasets.jsonl''"

definition dataset_merger ::
  "(string \<Rightarrow> string) \<Rightarrow> unicode \<Rightarrow> filesystem \<Rightarrow> filesystem \<times> (exn + nat)" where
  "dataset_merger visible linesep fs = merge_script visible linesep files output_file fs"

section \<open>Auxiliary definitions for the statements\<close>

text \<open>
  What one pass of the extractor's loop body appends for a node: nothing, or the
  dictionary of the comment.
\<close>

fun retained :: "'t node \<Rightarrow> 't comment_rec list" where
  "retained MoreComments = []"
| "retained (Comment c) =
     (case getattr (comment_body c) None of
        None \<Rightarrow> []
      | Some body \<Rightarrow>
          if body = [] \<or> is_sentinel body then [] else [comment_dict c body])"

text \<open>Concrete comments and posts, for evaluating the functions.\<close>

definition example_comment :: "string \<Rightarrow> string \<Rightarrow> int \<Rightarrow> unit comment" where
  "example_comment i b s =
     \<lparr>comment_id = i, comment_body = Present (Some b), comment_score = Present (Some s),
      comment_created_utc = Present None, comment_is_submitter = Present False\<rparr>"

definition example_dict :: "string \<Rightarrow> string \<Rightarrow> int \<Rightarrow> unit comment_rec" where
  "example_dict i b s =
     \<lparr>rec_id = i, rec_body = b, rec_score = Some s, rec_created_utc = None,
      rec_is_submitter = False\<rparr>"

definition example_post :: "string \<Rightarrow> exn option \<Rightarrow> unit node py_iter \<Rightarrow> unit post" where
  "example_post title r cs =
     \<lparr>post_id = ''p1'', post_title = title, post_selftext = Present [],
      post_score = Present (Some 1), post_created_utc = Present None,
      post_num_comments = Present (Some 3), post_permalink = Present (Some ''/r/x/p1''),
      replace_more = r, comments = cs\<rparr>"

definition scenario_comments :: "unit node py_iter" where
  "scenario_comments =
     Yield (Comment (example_comment ''c1'' ''ok'' 5))
       (Yield (Comment (example_comment ''c2'' ''[removed]'' 5))
          (Yield (Comment (example_comment ''c3'' ''best'' 9)) Exhausted))"

definition tie_nodes :: "unit node list" where
  "tie_nodes =
     [Comment (example_comment ''a'' ''first'' 5),
      Comment (example_comment ''b'' ''top'' 9),
      Comment (example_comment ''c'' ''second'' 5),
      Comment (example_comment ''d'' ''third'' 5)]"

definition tie_comments :: "unit node py_iter" where
  "tie_comments = foldr Yield tie_nodes Exhausted"

definition failing_comments :: "unit node py_iter" where
  "failing_comments =
     Yield (Comment (example_comment ''c1'' ''ok'' 5)) (Raises (ProviderError ''503''))"

definition mixed_comments :: "unit node py_iter" where
  "mixed_comments =
     Yield (Comment (example_comment ''c1'' '' low [deleted] '' 1))
       (Yield (Comment (example_comment ''c2'' ''[removed]'' 5))
          (Yield (Comment (example_comment ''c3'' ''best'' 9)) Exhausted))"

text \<open>
  The invariant of the scraper's two sinks: every object written to the JSONL file and
  every buffered row has a title that is not empty.
\<close>

definition titles_nonempty :: "'t scrape_state \<Rightarrow> bool" where
  "titles_nonempty st =
     ((\<forall>d \<in> set (jsonl_lines st). pd_title d \<noteq> []) \<and>
      (\<forall>r \<in> set (rows st). row_title r \<noteq> []))"

text \<open>An API session whose every listing yields the given posts.\<close>

definition example_env :: "unit post py_iter \<Rightarrow> unit reddit_env" where
  "example_env posts =
     \<lparr>credentials = True,
      subreddit = (\<lambda>name.
        \<lparr>sub_top = (\<lambda>time_filter limit. posts), sub_hot = (\<lambda>limit. posts),
         sub_new = (\<lambda>limit. posts), sub_rising = (\<lambda>limit. posts)\<rparr>)\<rparr>"

definition post_first :: "unit post" where
  "post_first = example_post ''First'' None scenario_comments"

definition post_untitled :: "unit post" where
  "post_untitled = example_post '' [removed] '' None scenario_comments"

definition post_failing :: "unit post" where
  "post_failing = example_post ''Failing'' None failing_comments"

definition post_second :: "unit post" where
  "post_second = example_post ''Second'' None Exhausted"

definition first_data :: "unit post_data" where
  "first_data =
     \<lparr>pd_id = ''p1'', pd_title = ''First'', pd_selftext = [], pd_score = Some 1,
      pd_created_utc = None, pd_num_comments = Some 3, pd_permalink = Some ''/r/x/p1'',
      pd_top_comments = [example_dict ''c3'' ''best'' 9, example_dict ''c1'' ''ok'' 5]\<rparr>"

definition first_row :: "unit csv_row" where
  "first_row =
     \<lparr>row_id = ''p1'', row_title = ''First'', row_selftext = [],
      row_top_comments = ''best ||| ok'', row_score = Some 1, row_num_comments = Some 3,
      row_created_utc = None, row_permalink = Some ''/r/x/p1''\<rparr>"

text \<open>
  The two files of the specification's merge scenario, \<^verbatim>\<open>{"a":1}\<close> and \<^verbatim>\<open>{"b":2}\<close>, each
  with its line feed; a file whose line ends with carriage return and line feed; and a
  file in Latin-1, whose byte E9 is not UTF-8.
\<close>

definition line_a :: string where
  "line_a = [CHR ''{'', CHR 0x22, CHR ''a'', CHR 0x22, CHR '':'', CHR ''1'', CHR ''}'']"

definition line_b :: string where
  "line_b = [CHR ''{'', CHR 0x22, CHR ''b'', CHR 0x22, CHR '':'', CHR ''2'', CHR ''}'']"

definition no_files :: filesystem where
  "no_files name = Inl (FileNotFoundError name)"

definition example_files :: filesystem where
  "example_files =
     no_files(''A.jsonl'' := Inr (line_a @ [LF]), ''B.jsonl'' := Inr (line_b @ [LF]))"

definition crlf_files :: filesystem where
  "crlf_files = no_files(''A.jsonl'' := Inr (line_a @ [CR, LF]))"

definition latin1_files :: filesystem where
  "latin1_files =
     no_files(''A.jsonl'' := Inr [CHR ''c'', CHR ''a'', CHR ''f'', CHR 0xE9, LF])"

text \<open>The buffering of a short run: nothing reaches the output file before it is closed.\<close>

definition unflushed :: "string \<Rightarrow> string" where
  "unflushed written = []"

section \<open>Strings\<close>

lemma rstrip_Cons:
  "rev (dropWhile P (rev (x # xs))) =
     (if P x \<and> rev (dropWhile P (rev xs)) = [] then [] else x # rev (dropWhile P (rev xs)))"
  by (auto simp: dropWhile_append)

lemma dropWhile_rstrip:
  assumes "ys = [] \<or> \<not> P (hd ys)"
  shows "dropWhile P (rev (dropWhile P (rev ys))) = rev (dropWhile P (rev ys))"
proof (cases ys)
  case Nil
  then show ?thesis by simp
next
  case (Cons y ys')
  with assms have "\<not> P y" by simp
  then show ?thesis unfolding Cons rstrip_Cons by simp
qed

lemma dropWhile_hd: "dropWhile P s = [] \<or> \<not> P (hd (dropWhile P s))"
  by (metis hd_dropWhile)

lemma strip_strip: "strip (strip s) = strip s"
proof -
  let ?y = "dropWhile isspace s"
  have "dropWhile isspace (rev (dropWhile isspace (rev ?y))) = rev (dropWhile isspace (rev ?y))"
    by (rule dropWhile_rstrip) (rule dropWhile_hd)
  then show ?thesis by (simp add: strip_def)
qed

lemma length_strip: "length (strip s) \<le> length s"
proof -
  have "length (dropWhile isspace (rev (dropWhile isspace s)))
      \<le> length (rev (dropWhile isspace s))"
    by (rule length_dropWhile_le)
  also have "\<dots> \<le> length s" by (simp add: length_dropWhile_le)
  finally show ?thesis by (simp add: strip_def)
qed

lemma replace_nonempty_absent: "\<not> sublist old s \<Longrightarrow> replace_nonempty old new s = s"
  by (induction old new s rule: replace_nonempty.induct) (auto simp: sublist_Cons_right)

lemma length_replace_nonempty_le: "length (replace_nonempty old [] s) \<le> length s"
proof (induction old "[] :: string" s rule: replace_nonempty.induct)
  case (1 old)
  then show ?case by simp
next
  case (2 old c cs)
  show ?case
  proof (cases "prefix old (c # cs)")
    case True
    with 2 have "length (replace_nonempty old [] (drop (length old - 1) cs))
        \<le> length (drop (length old - 1) cs)" by simp
    also have "\<dots> \<le> length cs" by simp
    finally show ?thesis using True by simp
  next
    case False
    with 2 show ?thesis by simp
  qed
qed

lemma length_replace_nonempty_less:
  "old \<noteq> [] \<Longrightarrow> sublist old s \<Longrightarrow> length (replace_nonempty old [] s) < length s"
proof (induction old "[] :: string" s rule: replace_nonempty.induct)
  case (1 old)
  then show ?case by simp
next
  case (2 old c cs)
  show ?case
  proof (cases "prefix old (c # cs)")
    case True
    have "length (replace_nonempty old [] (drop (length old - 1) cs)) \<le> length cs"
      using length_replace_nonempty_le[of old "drop (length old - 1) cs"] by simp
    with True show ?thesis by simp
  next
    case False
    with 2 show ?thesis by (auto simp: sublist_Cons_right)
  qed
qed

lemma length_replace_le: "old \<noteq> [] \<Longrightarrow> length (replace old [] s) \<le> length s"
  by (simp add: replace_def length_replace_nonempty_le)

section \<open>The sanitizer is not idempotent\<close>

text \<open>
  Claim C2 says that \<open>redact_text\<close> is idempotent on every string. Each placeholder is
  removed in one pass from the left, so removing an occurrence can join its two
  neighbours into a new one, which only a second application removes. As amended:
  \<open>redact_text (redact_text s) = redact_text s\<close> holds exactly when \<open>redact_text s\<close>
  contains neither \<^verbatim>\<open>[deleted]\<close> nor \<^verbatim>\<open>[removed]\<close>.
\<close>

theorem redact_text_idempotent_iff:
  "redact_text (redact_text s) = redact_text s \<longleftrightarrow>
     \<not> sublist ''[deleted]'' (redact_text s) \<and> \<not> sublist ''[removed]'' (redact_text s)"
proof
  assume absent:
    "\<not> sublist ''[deleted]'' (redact_text s) \<and> \<not> sublist ''[removed]'' (redact_text s)"
  show "redact_text (redact_text s) = redact_text s"
  proof (cases "redact_text s = []")
    case True
    then show ?thesis by (simp add: redact_text_def)
  next
    case False
    obtain u where u: "redact_text s = strip u"
      using False by (auto simp: redact_text_def split: if_splits)
    have "replace ''[removed]'' [] (replace ''[deleted]'' [] (redact_text s)) = redact_text s"
      using absent by (simp add: replace_def replace_nonempty_absent)
    then have "redact_text (redact_text s) = strip (redact_text s)"
      using False by (simp add: redact_text_def)
    then show ?thesis by (simp add: u strip_strip)
  qed
next
  assume idem: "redact_text (redact_text s) = redact_text s"
  let ?t = "redact_text s"
  let ?a = "replace ''[deleted]'' [] ?t"
  let ?b = "replace ''[removed]'' [] ?a"
  show "\<not> sublist ''[deleted]'' ?t \<and> \<not> sublist ''[removed]'' ?t"
  proof (rule ccontr)
    assume "\<not> (\<not> sublist ''[deleted]'' ?t \<and> \<not> sublist ''[removed]'' ?t)"
    then have occ: "sublist ''[deleted]'' ?t \<or> sublist ''[removed]'' ?t" by blast
    then have ne: "?t \<noteq> []" by auto
    have b_le: "length ?b \<le> length ?a" by (simp add: length_replace_le)
    have "length ?b < length ?t"
    proof (cases "sublist ''[deleted]'' ?t")
      case True
      then have "length ?a < length ?t"
        by (simp add: replace_def length_replace_nonempty_less)
      with b_le show ?thesis by simp
    next
      case False
      then have "?a = ?t" by (simp add: replace_def replace_nonempty_absent)
      moreover from False occ have "sublist ''[removed]'' ?t" by blast
      ultimately show ?thesis by (simp add: replace_def length_replace_nonempty_less)
    qed
    moreover have "redact_text ?t = strip ?b" using ne by (simp add: redact_text_def)
    ultimately have "length (redact_text ?t) < length ?t"
      using length_strip[of ?b] by simp
    with idem show False by simp
  qed
qed

text \<open>
  The amended statement at \<^verbatim>\<open>" a [deleted] b "\<close>, whose sanitized text \<^verbatim>\<open>"a  b"\<close> holds
  no placeholder.
\<close>

theorem redact_text_idempotent_iff_witness:
  "redact_text '' a [deleted] b '' = ''a  b'' \<and>
   redact_text (redact_text '' a [deleted] b '') = redact_text '' a [deleted] b ''"
proof -
  have v: "redact_text '' a [deleted] b '' = ''a  b''"
    by code_simp
  have "\<not> sublist ''[deleted]'' (redact_text '' a [deleted] b '') \<and>
      \<not> sublist ''[removed]'' (redact_text '' a [deleted] b '')"
    by code_simp
  from iffD2[OF redact_text_idempotent_iff this] v show ?thesis by simp
qed

text \<open>
  The claim as stated fails at \<^verbatim>\<open>"[del[deleted]eted]"\<close>: one application leaves
  \<^verbatim>\<open>"[deleted]"\<close>, a second one leaves the empty string.
\<close>

theorem redact_text_not_idempotent:
  "redact_text ''[del[deleted]eted]'' = ''[deleted]'' \<and>
   redact_text (redact_text ''[del[deleted]eted]'') = [] \<and>
   redact_text (redact_text ''[del[deleted]eted]'') \<noteq> redact_text ''[del[deleted]eted]''"
  by code_simp

section \<open>The comment extractor\<close>

lemma collect_comments_eq:
  "collect_comments it acc =
     (case iter_list it of
        Inl e \<Rightarrow> Inl e
      | Inr nodes \<Rightarrow> Inr (acc @ concat (map retained nodes)))"
  by (induction it acc rule: collect_comments.induct) (auto split: sum.splits option.splits)

lemma extract_top_comments_eq:
  "snd (extract_top_comments post n) =
     (case iter_list (comments post) of
        Inl e \<Rightarrow> Inl e
      | Inr nodes \<Rightarrow>
          Inr (slice_to n (sorted_reverse score_key (concat (map retained nodes)))))"
  by (simp add: extract_top_comments_def Let_def collect_comments_eq split: sum.splits)

lemma length_slice_to: "0 \<le> n \<Longrightarrow> length (slice_to n xs) \<le> nat n"
  by (simp add: slice_to_def)

lemma set_slice_to: "set (slice_to n xs) \<subseteq> set xs"
  by (auto simp: slice_to_def dest: in_set_takeD)

lemma sorted_wrt_slice_to: "sorted_wrt R xs \<Longrightarrow> sorted_wrt R (slice_to n xs)"
  by (auto simp: slice_to_def)

lemma prefix_filter_take: "prefix (filter P (take k xs)) (filter P xs)"
proof -
  have "filter P xs = filter P (take k xs) @ filter P (drop k xs)"
    by (metis append_take_drop_id filter_append)
  then show ?thesis by (metis prefixI)
qed

lemma prefix_filter_slice_to: "prefix (filter P (slice_to n xs)) (filter P xs)"
  by (simp add: slice_to_def prefix_filter_take)

lemma sorted_reverse_descending:
  "sorted_wrt (\<lambda>a b. key b \<le> key a) (sorted_reverse key xs)"
proof -
  have "sorted (map (\<lambda>x. - key x) (sort_key (\<lambda>x. - key x) xs))"
    by (rule sorted_sort_key)
  then show ?thesis
    by (simp add: sorted_reverse_def sorted_wrt_map)
qed

lemma sorted_reverse_stable:
  "filter (\<lambda>x. key x = k) (sorted_reverse key xs) = filter (\<lambda>x. key x = k) xs"
  using sort_key_stable[of "\<lambda>x. - key x" "- k" xs]
  by (simp add: sorted_reverse_def)

lemma set_sorted_reverse: "set (sorted_reverse key xs) = set xs"
  by (simp add: sorted_reverse_def)

lemma retained_D:
  "r \<in> set (retained nd) \<Longrightarrow>
     \<exists>c body. nd = Comment c \<and> r = comment_dict c body \<and>
        comment_body c = Present (Some body) \<and> body \<noteq> [] \<and> \<not> is_sentinel body"
  by (cases nd) (auto simp: getattr_def split: option.splits attr.splits if_splits)

lemma extract_result_retained:
  assumes "snd (extract_top_comments post top_n) = Inr result"
    and "iter_list (comments post) = Inr nodes"
  shows "set result \<subseteq> set (concat (map retained nodes))"
  using assms set_slice_to set_sorted_reverse
  by (fastforce simp: extract_top_comments_eq)

lemma scenario_eval:
  "snd (extract_top_comments (example_post ''A title'' None scenario_comments) 2) =
     Inr [example_dict ''c3'' ''best'' 9, example_dict ''c1'' ''ok'' 5]"
  by code_simp

lemma tie_eval:
  "snd (extract_top_comments (example_post ''A title'' None tie_comments) 3) =
     Inr [example_dict ''b'' ''top'' 9, example_dict ''a'' ''first'' 5,
          example_dict ''c'' ''second'' 5]"
  by code_simp

lemma tie_iter: "iter_list tie_comments = Inr tie_nodes"
  by code_simp

lemma scenario_iter:
  "iter_list (comments (example_post ''A title'' None scenario_comments)) =
     Inr [Comment (example_comment ''c1'' ''ok'' 5),
          Comment (example_comment ''c2'' ''[removed]'' 5),
          Comment (example_comment ''c3'' ''best'' 9)]"
  by code_simp

text \<open>
  Claim C1: for every post and every non-negative \<open>top_n\<close>, the list that
  \<open>extract_top_comments\<close> returns has at most \<open>top_n\<close> elements, and the scores of its
  elements do not increase from first to last. The score of an element is the sort key
  of the source, which reads a score of \<^verbatim>\<open>None\<close> as 0.
\<close>

theorem extract_top_comments_length_and_order:
  assumes "snd (extract_top_comments post top_n) = Inr result" and "0 \<le> top_n"
  shows "length result \<le> nat top_n \<and>
         sorted_wrt (\<lambda>a b. score_key b \<le> score_key a) result"
  using assms
  by (auto simp: extract_top_comments_eq length_slice_to sorted_wrt_slice_to
      sorted_reverse_descending split: sum.splits)

theorem extract_top_comments_length_and_order_witness:
  "snd (extract_top_comments (example_post ''A title'' None tie_comments) 3) =
     Inr [example_dict ''b'' ''top'' 9, example_dict ''a'' ''first'' 5,
          example_dict ''c'' ''second'' 5] \<and>
   length [example_dict ''b'' ''top'' 9, example_dict ''a'' ''first'' 5,
           example_dict ''c'' ''second'' 5] \<le> nat 3 \<and>
   sorted_wrt (\<lambda>a b. score_key b \<le> score_key a)
     [example_dict ''b'' ''top'' 9, example_dict ''a'' ''first'' 5,
      example_dict ''c'' ''second'' 5]"
proof -
  have n: "(0::int) \<le> 3" by simp
  from extract_top_comments_length_and_order[OF tie_eval n] tie_eval
  show ?thesis by simp
qed

text \<open>
  Claim C3 says that \<open>extract_top_comments\<close> never raises, also when the iteration over
  the comments raises. Only the call of \<^verbatim>\<open>replace_more\<close> stands in a \<^verbatim>\<open>try\<close>; the loop
  over \<^verbatim>\<open>post.comments\<close> does not, and its caller \<open>scrape_subreddit\<close> catches what it
  raises. As amended: an exception of the comment expansion is logged as a warning and
  swallowed, and the function returns a list whenever the iteration over the comments
  ends without an exception; an exception raised by that iteration is raised by
  \<open>extract_top_comments\<close> as it is.
\<close>

theorem extract_top_comments_raises_what_iteration_raises:
  "(replace_more post = Some x \<longrightarrow>
      fst (extract_top_comments post top_n) = [ReplaceMoreFailed (post_id post) x]) \<and>
   (iter_list (comments post) = Inr nodes \<longrightarrow>
      (\<exists>result. snd (extract_top_comments post top_n) = Inr result)) \<and>
   (iter_list (comments post) = Inl e \<longrightarrow>
      snd (extract_top_comments post top_n) = Inl e)"
  by (simp add: extract_top_comments_eq) (simp add: extract_top_comments_def)

theorem extract_top_comments_raises_what_iteration_raises_witness:
  "replace_more (example_post ''A title'' (Some (ProviderError ''429'')) tie_comments) =
     Some (ProviderError ''429'') \<and>
   iter_list (comments (example_post ''A title'' (Some (ProviderError ''429'')) tie_comments)) =
     Inr tie_nodes \<and>
   fst (extract_top_comments
          (example_post ''A title'' (Some (ProviderError ''429'')) tie_comments) 3) =
     [ReplaceMoreFailed ''p1'' (ProviderError ''429'')] \<and>
   (\<exists>result. snd (extract_top_comments
          (example_post ''A title'' (Some (ProviderError ''429'')) tie_comments) 3) =
     Inr result) \<and>
   iter_list (comments (example_post ''A title'' None failing_comments)) =
     Inl (ProviderError ''503'') \<and>
   snd (extract_top_comments (example_post ''A title'' None failing_comments) 3) =
     Inl (ProviderError ''503'')"
proof -
  let ?p = "example_post ''A title'' (Some (ProviderError ''429'')) tie_comments"
  let ?q = "example_post ''A title'' None failing_comments"
  have a: "replace_more ?p = Some (ProviderError ''429'')"
    by (simp add: example_post_def)
  have b: "iter_list (comments ?p) = Inr tie_nodes"
    by (simp add: example_post_def tie_iter)
  have c: "iter_list (comments ?q) = Inl (ProviderError ''503'')"
    by code_simp
  have i: "post_id ?p = ''p1''"
    by (simp add: example_post_def)
  from extract_top_comments_raises_what_iteration_raises
         [of ?p "ProviderError ''429''" 3 tie_nodes] a b
  have "fst (extract_top_comments ?p 3) = [ReplaceMoreFailed (post_id ?p) (ProviderError ''429'')]
      \<and> (\<exists>result. snd (extract_top_comments ?p 3) = Inr result)"
    by blast
  moreover from extract_top_comments_raises_what_iteration_raises
         [of ?q _ 3 _ "ProviderError ''503''"] c
  have "snd (extract_top_comments ?q 3) = Inl (ProviderError ''503'')"
    by blast
  ultimately show ?thesis using a b c i by simp
qed

text \<open>
  The claim as stated fails for a post whose comment iteration yields one comment and
  then raises: the exception leaves \<open>extract_top_comments\<close>, and no list is returned.
\<close>

theorem extract_top_comments_raises:
  "snd (extract_top_comments (example_post ''A title'' None failing_comments) 5) =
     Inl (ProviderError ''503'') \<and>
   (\<nexists>result. snd (extract_top_comments (example_post ''A title'' None failing_comments) 5) =
     Inr result)"
proof -
  have "snd (extract_top_comments (example_post ''A title'' None failing_comments) 5) =
      Inl (ProviderError ''503'')"
    by code_simp
  then show ?thesis by simp
qed

text \<open>
  Claim C4: a comment whose body is missing or empty, or whose body, trimmed and
  lowercased, is \<^verbatim>\<open>[deleted]\<close> or \<^verbatim>\<open>[removed]\<close>, does not appear in the list returned by
  \<open>extract_top_comments\<close>. Every returned dictionary is the dictionary of a comment of
  the post whose body is present, not empty and not a sentinel; and an identifier that
  only such excluded comments carry is the identifier of no returned dictionary.
\<close>

theorem extract_top_comments_excludes_deleted:
  assumes "snd (extract_top_comments post top_n) = Inr result"
    and "iter_list (comments post) = Inr nodes"
  shows "(\<forall>r \<in> set result. \<exists>c body. Comment c \<in> set nodes \<and> r = comment_dict c body \<and>
            comment_body c = Present (Some body) \<and> body \<noteq> [] \<and>
            lower (strip body) \<noteq> ''[deleted]'' \<and> lower (strip body) \<noteq> ''[removed]'') \<and>
         (\<forall>i. (\<forall>c. Comment c \<in> set nodes \<and> comment_id c = i \<longrightarrow>
                  comment_body c = Absent \<or> comment_body c = Present None \<or>
                  (\<exists>body. comment_body c = Present (Some body) \<and>
                     (body = [] \<or> lower (strip body) = ''[deleted]'' \<or>
                      lower (strip body) = ''[removed]''))) \<longrightarrow>
              i \<notin> rec_id ` set result)"
proof -
  have origin: "\<exists>c body. Comment c \<in> set nodes \<and> r = comment_dict c body \<and>
            comment_body c = Present (Some body) \<and> body \<noteq> [] \<and>
            lower (strip body) \<noteq> ''[deleted]'' \<and> lower (strip body) \<noteq> ''[removed]''"
    if "r \<in> set result" for r
  proof -
    from that extract_result_retained[OF assms]
    have "r \<in> set (concat (map retained nodes))" by blast
    then obtain nd where nd: "nd \<in> set nodes" "r \<in> set (retained nd)" by auto
    from retained_D[OF nd(2)] nd(1) show ?thesis
      by (auto simp: is_sentinel_def)
  qed
  have "i \<notin> rec_id ` set result"
    if excl: "\<forall>c. Comment c \<in> set nodes \<and> comment_id c = i \<longrightarrow>
                  comment_body c = Absent \<or> comment_body c = Present None \<or>
                  (\<exists>body. comment_body c = Present (Some body) \<and>
                     (body = [] \<or> lower (strip body) = ''[deleted]'' \<or>
                      lower (strip body) = ''[removed]''))" for i
  proof
    assume "i \<in> rec_id ` set result"
    then obtain r where r: "r \<in> set result" "rec_id r = i" by auto
    from origin[OF r(1)] obtain c body where c: "Comment c \<in> set nodes"
      "r = comment_dict c body" "comment_body c = Present (Some body)" "body \<noteq> []"
      "lower (strip body) \<noteq> ''[deleted]''" "lower (strip body) \<noteq> ''[removed]''"
      by blast
    from c(2) r(2) have "comment_id c = i" by (simp add: comment_dict_def)
    with excl c(1) have "comment_body c = Absent \<or> comment_body c = Present None \<or>
                  (\<exists>body. comment_body c = Present (Some body) \<and>
                     (body = [] \<or> lower (strip body) = ''[deleted]'' \<or>
                      lower (strip body) = ''[removed]''))" by blast
    with c(3-6) show False by auto
  qed
  with origin show ?thesis by blast
qed

text \<open>
  In the scenario post the comment \<^verbatim>\<open>c2\<close> has the body \<^verbatim>\<open>[removed]\<close>; no returned
  dictionary carries its identifier.
\<close>

theorem extract_top_comments_excludes_deleted_witness:
  "snd (extract_top_comments (example_post ''A title'' None scenario_comments) 2) =
     Inr [example_dict ''c3'' ''best'' 9, example_dict ''c1'' ''ok'' 5] \<and>
   iter_list (comments (example_post ''A title'' None scenario_comments)) =
     Inr [Comment (example_comment ''c1'' ''ok'' 5),
          Comment (example_comment ''c2'' ''[removed]'' 5),
          Comment (example_comment ''c3'' ''best'' 9)] \<and>
   lower (strip ''[removed]'') = ''[removed]'' \<and>
   ''c2'' \<notin> rec_id ` set [example_dict ''c3'' ''best'' 9, example_dict ''c1'' ''ok'' 5]"
proof -
  have l: "lower (strip ''[removed]'') = ''[removed]''"
    by code_simp
  have excl: "\<forall>c. Comment c \<in> set [Comment (example_comment ''c1'' ''ok'' 5),
          Comment (example_comment ''c2'' ''[removed]'' 5),
          Comment (example_comment ''c3'' ''best'' 9)] \<and> comment_id c = ''c2'' \<longrightarrow>
        comment_body c = Absent \<or> comment_body c = Present None \<or>
        (\<exists>body. comment_body c = Present (Some body) \<and>
           (body = [] \<or> lower (strip body) = ''[deleted]'' \<or>
            lower (strip body) = ''[removed]''))"
    using l by (auto simp: example_comment_def)
  from extract_top_comments_excludes_deleted[OF scenario_eval scenario_iter] excl
  have "''c2'' \<notin> rec_id ` set [example_dict ''c3'' ''best'' 9, example_dict ''c1'' ''ok'' 5]"
    by blast
  with scenario_eval scenario_iter l show ?thesis by simp
qed

text \<open>
  Claim C5: the sort by score is stable. For every score \<open>k\<close>, the returned dictionaries
  with that score are, in their order, an initial segment of the retained comments with
  that score in the provider's order. In the scenario of the specification (scores 5, 5
  and 9, the second body \<^verbatim>\<open>[removed]\<close>, \<open>top_n = 2\<close>) the result is the comment with score
  9 followed by the first comment with score 5.
\<close>

theorem extract_top_comments_stable:
  "(snd (extract_top_comments post top_n) = Inr result \<longrightarrow>
    iter_list (comments post) = Inr nodes \<longrightarrow>
      prefix (filter (\<lambda>r. score_key r = k) result)
             (filter (\<lambda>r. score_key r = k) (concat (map retained nodes)))) \<and>
   snd (extract_top_comments (example_post ''A title'' None scenario_comments) 2) =
     Inr [example_dict ''c3'' ''best'' 9, example_dict ''c1'' ''ok'' 5]"
proof -
  have "prefix (filter (\<lambda>r. score_key r = k) result)
             (filter (\<lambda>r. score_key r = k) (concat (map retained nodes)))"
    if r: "snd (extract_top_comments post top_n) = Inr result"
      and n: "iter_list (comments post) = Inr nodes"
  proof -
    let ?kept = "concat (map retained nodes)"
    from r n have "result = slice_to top_n (sorted_reverse score_key ?kept)"
      by (simp add: extract_top_comments_eq)
    then have "prefix (filter (\<lambda>r. score_key r = k) result)
        (filter (\<lambda>r. score_key r = k) (sorted_reverse score_key ?kept))"
      by (simp add: prefix_filter_slice_to)
    then show ?thesis by (simp add: sorted_reverse_stable)
  qed
  with scenario_eval show ?thesis by blast
qed

text \<open>
  Four comments with the scores 5, 9, 5, 5 and \<open>top_n = 3\<close>: the two returned comments
  with score 5 are the first two of the three, in the provider's order.
\<close>

theorem extract_top_comments_stable_witness:
  "snd (extract_top_comments (example_post ''A title'' None tie_comments) 3) =
     Inr [example_dict ''b'' ''top'' 9, example_dict ''a'' ''first'' 5,
          example_dict ''c'' ''second'' 5] \<and>
   iter_list (comments (example_post ''A title'' None tie_comments)) = Inr tie_nodes \<and>
   filter (\<lambda>r. score_key r = 5) (concat (map retained tie_nodes)) =
     [example_dict ''a'' ''first'' 5, example_dict ''c'' ''second'' 5,
      example_dict ''d'' ''third'' 5] \<and>
   prefix (filter (\<lambda>r. score_key r = 5)
             [example_dict ''b'' ''top'' 9, example_dict ''a'' ''first'' 5,
              example_dict ''c'' ''second'' 5])
          (filter (\<lambda>r. score_key r = 5) (concat (map retained tie_nodes)))"
proof -
  have it: "iter_list (comments (example_post ''A title'' None tie_comments)) = Inr tie_nodes"
    by (simp add: example_post_def tie_iter)
  have kept: "filter (\<lambda>r. score_key r = 5) (concat (map retained tie_nodes)) =
     [example_dict ''a'' ''first'' 5, example_dict ''c'' ''second'' 5,
      example_dict ''d'' ''third'' 5]"
    by code_simp
  from extract_top_comments_stable
         [of "example_post ''A title'' None tie_comments" 3 _ tie_nodes 5] tie_eval it
  have "prefix (filter (\<lambda>r. score_key r = 5)
             [example_dict ''b'' ''top'' 9, example_dict ''a'' ''first'' 5,
              example_dict ''c'' ''second'' 5])
          (filter (\<lambda>r. score_key r = 5) (concat (map retained tie_nodes)))"
    by blast
  with tie_eval it kept show ?thesis by blast
qed

text \<open>
  Claim C9: for some input \<open>extract_top_comments\<close> returns a dictionary whose body is
  the empty string. The body \<^verbatim>\<open>[deleted][removed]\<close> is not a sentinel, so the comment is
  retained, and \<open>redact_text\<close> maps it to the empty string.
\<close>

theorem extract_top_comments_returns_empty_body:
  "\<not> is_sentinel ''[deleted][removed]'' \<and>
   redact_text ''[deleted][removed]'' = [] \<and>
   snd (extract_top_comments
          (example_post ''A title'' None
             (Yield (Comment (example_comment ''c1'' ''[deleted][removed]'' 5)) Exhausted)) 5) =
     Inr [example_dict ''c1'' [] 5] \<and>
   rec_body (example_dict ''c1'' [] 5) = []"
  by code_simp

section \<open>The scraper's sinks\<close>

lemma try_block_Inl:
  assumes "try_block n st post = Inl (st1, e)"
  shows "jsonl_lines st1 = jsonl_lines st \<and> rows st1 = rows st \<and> count st1 = count st \<and>
         jsonl_closed st1 = jsonl_closed st"
  using assms
  by (auto simp: try_block_def Let_def split: prod.splits sum.splits if_splits)

lemma process_post_error:
  assumes "try_block n st post = Inl (st1, e)"
  shows "jsonl_closed (process_post n st post) \<and>
         jsonl_lines (process_post n st post) = jsonl_lines st \<and>
         rows (process_post n st post) = rows st \<and>
         count (process_post n st post) = count st"
  using try_block_Inl[OF assms] assms by (simp add: process_post_def except_block_def)

lemma process_post_closed:
  assumes "jsonl_closed st"
  shows "jsonl_closed (process_post n st post) \<and>
         jsonl_lines (process_post n st post) = jsonl_lines st \<and>
         rows (process_post n st post) = rows st \<and>
         count (process_post n st post) = count st"
  using assms
  by (auto simp: process_post_def try_block_def except_block_def Let_def
      split: prod.splits sum.splits if_splits)

lemma scrape_loop_closed:
  "jsonl_closed st \<Longrightarrow>
     jsonl_closed (fst (scrape_loop n posts st)) \<and>
     jsonl_lines (fst (scrape_loop n posts st)) = jsonl_lines st \<and>
     rows (fst (scrape_loop n posts st)) = rows st \<and>
     count (fst (scrape_loop n posts st)) = count st"
proof (induction posts arbitrary: st)
  case Exhausted
  then show ?case by simp
next
  case (Yield post rest)
  from process_post_closed[OF Yield.prems, of n post] Yield.IH[of "process_post n st post"]
  show ?case by simp
next
  case (Raises e)
  then show ?case by simp
qed

lemma process_post_write_fails:
  assumes "jsonl_closed st" and "snd (extract_top_comments post n) = Inr result"
    and "redact_text (post_title post) \<noteq> []"
  shows "log (process_post n st post) =
     log st @ fst (extract_top_comments post n) @
       [SubmissionError (Some (post_id post)) (ValueError ''I/O operation on closed file.'')]"
  using assms
  by (auto simp: process_post_def try_block_def except_block_def Let_def make_post_data_def
      split: prod.splits sum.splits if_splits)

lemma process_post_titles:
  "titles_nonempty st \<Longrightarrow> titles_nonempty (process_post n st post)"
  by (auto simp: titles_nonempty_def process_post_def try_block_def except_block_def Let_def
      make_row_def split: prod.splits sum.splits if_splits)

lemma scrape_loop_titles:
  "titles_nonempty st \<Longrightarrow> titles_nonempty (fst (scrape_loop n posts st))"
  by (induction posts arbitrary: st) (simp_all add: process_post_titles)

lemma process_post_empty_title:
  "redact_text (post_title post) = [] \<Longrightarrow>
     jsonl_lines (process_post n st post) = jsonl_lines st \<and>
     rows (process_post n st post) = rows st"
  by (auto simp: process_post_def try_block_def except_block_def Let_def make_post_data_def
      split: prod.splits sum.splits if_splits)

lemma scrape_subreddit_titles:
  "titles_nonempty (final (scrape_subreddit env name sort_mode tf limit n)) \<and>
   (\<forall>rs. csv_file (scrape_subreddit env name sort_mode tf limit n) = Some rs \<longrightarrow>
      (\<forall>r \<in> set rs. row_title r \<noteq> []))"
proof -
  have init: "titles_nonempty ((initial_state :: 't scrape_state)\<lparr>log := l\<rparr>)"
    for l :: "log_entry list"
    by (simp add: titles_nonempty_def initial_state_def)
  have init': "titles_nonempty (initial_state :: 't scrape_state)"
    by (simp add: titles_nonempty_def initial_state_def)
  show ?thesis
  proof (cases "credentials env")
    case False
    then show ?thesis using init' by (simp add: scrape_subreddit_def)
  next
    case True
    obtain w it where
      sel: "select_listing (subreddit env name) (lower sort_mode) tf limit = (w, it)"
      by (cases "select_listing (subreddit env name) (lower sort_mode) tf limit")
    let ?st0 = "initial_state\<lparr>log := [ScrapingStarted name sort_mode tf limit n] @ w\<rparr>
                  :: 't scrape_state"
    obtain st r where loop: "scrape_loop n it ?st0 = (st, r)"
      by (cases "scrape_loop n it ?st0")
    have "titles_nonempty st"
      using scrape_loop_titles
              [OF init, of n it "[ScrapingStarted name sort_mode tf limit n] @ w"] loop
      by simp
    then show ?thesis
      using True sel loop
      by (cases r) (auto simp: scrape_subreddit_def Let_def titles_nonempty_def)
  qed
qed

lemma untitled_run_eval:
  "final (scrape_subreddit (example_env (Yield post_untitled (Yield post_first Exhausted)))
            ''soccer'' ''top'' ''all'' 250 2) =
     \<lparr>jsonl_closed = True, jsonl_lines = [first_data], rows = [first_row], count = 1,
      log = [ScrapingStarted ''soccer'' ''top'' ''all'' 250 2, Saved 1]\<rparr>"
  by code_simp

lemma untitled_csv_eval:
  "csv_file (scrape_subreddit (example_env (Yield post_untitled (Yield post_first Exhausted)))
            ''soccer'' ''top'' ''all'' 250 2) = Some [first_row]"
  by code_simp

text \<open>
  Claim C6: in every run of \<open>scrape_subreddit\<close>, every object written to the JSONL file,
  every buffered row and every row of the CSV file has a sanitized title that is not
  empty; and processing a post whose sanitized title is empty writes to neither sink.
\<close>

theorem scrape_subreddit_writes_only_titled_records:
  "(\<forall>d \<in> set (jsonl_lines (final (scrape_subreddit env name sort_mode tf limit n))).
      pd_title d \<noteq> []) \<and>
   (\<forall>r \<in> set (rows (final (scrape_subreddit env name sort_mode tf limit n))).
      row_title r \<noteq> []) \<and>
   (\<forall>rs. csv_file (scrape_subreddit env name sort_mode tf limit n) = Some rs \<longrightarrow>
      (\<forall>r \<in> set rs. row_title r \<noteq> [])) \<and>
   (redact_text (post_title post) = [] \<longrightarrow>
      jsonl_lines (process_post n st post) = jsonl_lines st \<and>
      rows (process_post n st post) = rows st)"
  using scrape_subreddit_titles[of env name sort_mode tf limit n]
    process_post_empty_title[of post n st]
  by (simp add: titles_nonempty_def)

text \<open>
  A run over a post whose title \<^verbatim>\<open>" [removed] "\<close> is empty once sanitized, followed by a
  post titled \<^verbatim>\<open>First\<close>: only the second one reaches the two sinks.
\<close>

theorem scrape_subreddit_writes_only_titled_records_witness:
  "redact_text (post_title post_untitled) = [] \<and>
   jsonl_lines (process_post 2 initial_state post_untitled) = jsonl_lines initial_state \<and>
   rows (process_post 2 initial_state post_untitled) = rows initial_state \<and>
   jsonl_lines (final (scrape_subreddit
      (example_env (Yield post_untitled (Yield post_first Exhausted)))
      ''soccer'' ''top'' ''all'' 250 2)) = [first_data] \<and>
   csv_file (scrape_subreddit
      (example_env (Yield post_untitled (Yield post_first Exhausted)))
      ''soccer'' ''top'' ''all'' 250 2) = Some [first_row] \<and>
   pd_title first_data \<noteq> [] \<and> row_title first_row \<noteq> []"
proof -
  let ?env = "example_env (Yield post_untitled (Yield post_first Exhausted))"
  let ?run = "scrape_subreddit ?env ''soccer'' ''top'' ''all'' 250 2"
  note inst = scrape_subreddit_writes_only_titled_records
               [of ?env "''soccer''" "''top''" "''all''" 250 2 post_untitled initial_state]
  have e: "redact_text (post_title post_untitled) = []"
    by code_simp
  have l: "jsonl_lines (final ?run) = [first_data]"
    by (simp add: untitled_run_eval)
  from inst e have a: "jsonl_lines (process_post 2 initial_state post_untitled) =
      jsonl_lines initial_state \<and>
      rows (process_post 2 initial_state post_untitled) = rows initial_state"
    by blast
  from inst l have b: "pd_title first_data \<noteq> []"
    by simp
  from inst untitled_csv_eval have c: "row_title first_row \<noteq> []"
    by simp
  from e a l b c untitled_csv_eval show ?thesis by blast
qed

lemma failing_try_eval:
  "try_block 2 (process_post 2 initial_state post_first) post_failing =
     Inl (process_post 2 initial_state post_first, ProviderError ''503'')"
  by code_simp

lemma first_lines_eval:
  "jsonl_lines (process_post 2 initial_state post_first) = [first_data] \<and>
   rows (process_post 2 initial_state post_first) = [first_row]"
  by code_simp

text \<open>
  Claim C7: once the processing of a post raises inside the \<^verbatim>\<open>try\<close>, the handler closes
  the JSONL file at once, and no record is written to either sink for the rest of the
  run, whatever posts follow, although the loop goes on: a later post with a title that
  is not empty and comments that can be extracted runs into the \<^verbatim>\<open>ValueError\<close> of the
  closed file, which is logged in its turn.
\<close>

theorem scrape_subreddit_error_stops_writes:
  assumes "try_block top_comments st post = Inl (st1, e)"
  shows "jsonl_closed (process_post top_comments st post) \<and>
         jsonl_lines (process_post top_comments st post) = jsonl_lines st \<and>
         rows (process_post top_comments st post) = rows st \<and>
         jsonl_lines (fst (scrape_loop top_comments (Yield post rest) st)) = jsonl_lines st \<and>
         rows (fst (scrape_loop top_comments (Yield post rest) st)) = rows st \<and>
         count (fst (scrape_loop top_comments (Yield post rest) st)) = count st \<and>
         (\<forall>st2 post2 result.
            jsonl_closed st2 \<and> snd (extract_top_comments post2 top_comments) = Inr result \<and>
            redact_text (post_title post2) \<noteq> [] \<longrightarrow>
              log (process_post top_comments st2 post2) =
                log st2 @ fst (extract_top_comments post2 top_comments) @
                  [SubmissionError (Some (post_id post2))
                     (ValueError ''I/O operation on closed file.'')])"
proof -
  note err = process_post_error[OF assms]
  from err have closed: "jsonl_closed (process_post top_comments st post)" by simp
  from scrape_loop_closed[OF closed, of top_comments rest] err
  have "jsonl_lines (fst (scrape_loop top_comments (Yield post rest) st)) = jsonl_lines st \<and>
        rows (fst (scrape_loop top_comments (Yield post rest) st)) = rows st \<and>
        count (fst (scrape_loop top_comments (Yield post rest) st)) = count st"
    by simp
  with err process_post_write_fails show ?thesis by blast
qed

text \<open>
  A listing of three posts: the first is written, the second raises while its comments
  are iterated, the third has a title and no comments. After the run the sinks hold the
  first post only, and the log records the error of the second post and the failed
  write of the third.
\<close>

theorem scrape_subreddit_error_stops_writes_witness:
  "try_block 2 (process_post 2 initial_state post_first) post_failing =
     Inl (process_post 2 initial_state post_first, ProviderError ''503'') \<and>
   jsonl_closed (process_post 2 (process_post 2 initial_state post_first) post_failing) \<and>
   jsonl_lines (fst (scrape_loop 2 (Yield post_failing (Yield post_second Exhausted))
      (process_post 2 initial_state post_first))) = [first_data] \<and>
   rows (fst (scrape_loop 2 (Yield post_failing (Yield post_second Exhausted))
      (process_post 2 initial_state post_first))) = [first_row] \<and>
   log (fst (scrape_loop 2 (Yield post_failing (Yield post_second Exhausted))
      (process_post 2 initial_state post_first))) =
     [SubmissionError (Some ''p1'') (ProviderError ''503''),
      SubmissionError (Some ''p1'') (ValueError ''I/O operation on closed file.'')]"
proof -
  let ?st = "process_post 2 initial_state post_first"
  let ?rest = "Yield post_second Exhausted"
  note inst = scrape_subreddit_error_stops_writes[OF failing_try_eval, of ?rest]
  have lg: "log (fst (scrape_loop 2 (Yield post_failing ?rest) ?st)) =
     [SubmissionError (Some ''p1'') (ProviderError ''503''),
      SubmissionError (Some ''p1'') (ValueError ''I/O operation on closed file.'')]"
    by code_simp
  from inst have a: "jsonl_closed (process_post 2 ?st post_failing)"
    by blast
  from inst have "jsonl_lines (fst (scrape_loop 2 (Yield post_failing ?rest) ?st)) =
      jsonl_lines ?st"
    by blast
  then have b: "jsonl_lines (fst (scrape_loop 2 (Yield post_failing ?rest) ?st)) = [first_data]"
    by (simp only: first_lines_eval)
  from inst have "rows (fst (scrape_loop 2 (Yield post_failing ?rest) ?st)) = rows ?st"
    by blast
  then have c: "rows (fst (scrape_loop 2 (Yield post_failing ?rest) ?st)) = [first_row]"
    by (simp only: first_lines_eval)
  from a b c
  failing_try_eval lg show ?thesis by blast
qed

section \<open>The merge utility\<close>

lemma div_base: "r < n \<Longrightarrow> (q * n + r) div n = (q::nat)"
  by simp

lemma mod_base: "r < n \<Longrightarrow> (q * n + r) mod n = (r::nat)"
  by simp

lemma enc2:
  assumes "194 \<le> b" "b \<le> 223" "continuation c1"
  shows "encode_code_point ((b - 192) * 64 + (c1 - 128)) = [b, c1]"
proof -
  define x where "x = b - 192"
  define y where "y = c1 - 128"
  have b: "192 + x = b" and x: "2 \<le> x" "x < 32"
    using assms by (simp_all add: x_def)
  have c: "128 + y = c1" and y: "y < 64"
    using assms by (auto simp: y_def continuation_def)
  have d: "(x * 64 + y) div 64 = x" by (rule div_base[OF y])
  have m: "(x * 64 + y) mod 64 = y" by (rule mod_base[OF y])
  have lo: "\<not> x * 64 + y < 128" using x by arith
  have hi: "x * 64 + y < 2048" using x y by arith
  have "encode_code_point (x * 64 + y) = [192 + x, 128 + y]"
    unfolding encode_code_point_def d m using lo hi by (simp only: if_True if_False)
  then show ?thesis
    unfolding x_def y_def b[unfolded x_def] c[unfolded y_def] .
qed

lemma enc3:
  assumes "224 \<le> b" "b \<le> 239" "continuation c1" "continuation c2"
    and "2048 \<le> (b - 224) * 4096 + (c1 - 128) * 64 + (c2 - 128)"
  shows "encode_code_point ((b - 224) * 4096 + (c1 - 128) * 64 + (c2 - 128)) = [b, c1, c2]"
proof -
  define x where "x = b - 224"
  define y where "y = c1 - 128"
  define z where "z = c2 - 128"
  have b: "224 + x = b" and x: "x < 16"
    using assms by (simp_all add: x_def)
  have c: "128 + y = c1" and y: "y < 64"
    using assms by (auto simp: y_def continuation_def)
  have e: "128 + z = c2" and z: "z < 64"
    using assms by (auto simp: z_def continuation_def)
  let ?cp = "x * 4096 + y * 64 + z"
  have cp: "?cp = (x * 64 + y) * 64 + z" by arith
  have m: "?cp mod 64 = z" unfolding cp by (rule mod_base[OF z])
  have d: "?cp div 64 = x * 64 + y" unfolding cp by (rule div_base[OF z])
  have d2: "?cp div 64 mod 64 = y" unfolding d by (rule mod_base[OF y])
  have yz: "y * 64 + z < 4096" using y z by arith
  have d3: "?cp div 4096 = x" unfolding add.assoc by (rule div_base[OF yz])
  have lo: "2048 \<le> ?cp" using assms(5) unfolding x_def y_def z_def .
  have lo1: "\<not> ?cp < 128" "\<not> ?cp < 2048" using lo by arith+
  have hi: "?cp < 65536" using x yz by arith
  have "encode_code_point ?cp = [224 + x, 128 + y, 128 + z]"
    unfolding encode_code_point_def d2 d3 m using lo1 hi by (simp only: if_True if_False)
  then show ?thesis
    unfolding x_def y_def z_def b[unfolded x_def] c[unfolded y_def] e[unfolded z_def] .
qed

lemma enc4:
  assumes "240 \<le> b" "b \<le> 244" "continuation c1" "continuation c2" "continuation c3"
    and "65536 \<le> (b - 240) * 262144 + (c1 - 128) * 4096 + (c2 - 128) * 64 + (c3 - 128)"
  shows "encode_code_point ((b - 240) * 262144 + (c1 - 128) * 4096 + (c2 - 128) * 64 + (c3 - 128))
     = [b, c1, c2, c3]"
proof -
  define x where "x = b - 240"
  define y where "y = c1 - 128"
  define z where "z = c2 - 128"
  define w where "w = c3 - 128"
  have b: "240 + x = b" and x: "x < 5"
    using assms by (simp_all add: x_def)
  have c: "128 + y = c1" and y: "y < 64"
    using assms by (auto simp: y_def continuation_def)
  have e: "128 + z = c2" and z: "z < 64"
    using assms by (auto simp: z_def continuation_def)
  have f: "128 + w = c3" and w: "w < 64"
    using assms by (auto simp: w_def continuation_def)
  let ?cp = "x * 262144 + y * 4096 + z * 64 + w"
  have cp: "?cp = ((x * 64 + y) * 64 + z) * 64 + w" by arith
  have m: "?cp mod 64 = w" unfolding cp by (rule mod_base[OF w])
  have d: "?cp div 64 = (x * 64 + y) * 64 + z" unfolding cp by (rule div_base[OF w])
  have d2: "?cp div 64 mod 64 = z" unfolding d by (rule mod_base[OF z])
  have zw: "z * 64 + w < 4096" using z w by arith
  have cp2: "?cp = (x * 64 + y) * 4096 + (z * 64 + w)" by arith
  have d3: "?cp div 4096 = x * 64 + y" unfolding cp2 by (rule div_base[OF zw])
  have d4: "?cp div 4096 mod 64 = y" unfolding d3 by (rule mod_base[OF y])
  have yzw: "y * 4096 + (z * 64 + w) < 262144" using y z w by arith
  have cp3: "?cp = x * 262144 + (y * 4096 + (z * 64 + w))" by arith
  have d5: "?cp div 262144 = x" unfolding cp3 by (rule div_base[OF yzw])
  have lo: "65536 \<le> ?cp" using assms(6) unfolding x_def y_def z_def w_def .
  have lo1: "\<not> ?cp < 128" "\<not> ?cp < 2048" "\<not> ?cp < 65536" using lo by arith+
  have "encode_code_point ?cp = [240 + x, 128 + y, 128 + z, 128 + w]"
    unfolding encode_code_point_def d2 d4 d5 m using lo1 by (simp only: if_True if_False)
  then show ?thesis
    unfolding x_def y_def z_def w_def b[unfolded x_def] c[unfolded y_def] e[unfolded z_def]
      f[unfolded w_def] .
qed


lemma decode_bytes_Cons:
  assumes "decode_bytes (b # bs) = Some t"
  obtains
    (one) t' where "b < 128" "decode_bytes bs = Some t'" "t = b # t'"
  | (two) c1 rest t' where "bs = c1 # rest" "194 \<le> b" "b \<le> 223" "continuation c1"
      "decode_bytes rest = Some t'" "t = ((b - 192) * 64 + (c1 - 128)) # t'"
  | (three) c1 c2 rest t' where "bs = c1 # c2 # rest" "224 \<le> b" "b \<le> 239"
      "continuation c1" "continuation c2"
      "2048 \<le> (b - 224) * 4096 + (c1 - 128) * 64 + (c2 - 128)"
      "scalar_value ((b - 224) * 4096 + (c1 - 128) * 64 + (c2 - 128))"
      "decode_bytes rest = Some t'"
      "t = ((b - 224) * 4096 + (c1 - 128) * 64 + (c2 - 128)) # t'"
  | (four) c1 c2 c3 rest t' where "bs = c1 # c2 # c3 # rest" "240 \<le> b" "b \<le> 244"
      "continuation c1" "continuation c2" "continuation c3"
      "65536 \<le> (b - 240) * 262144 + (c1 - 128) * 4096 + (c2 - 128) * 64 + (c3 - 128)"
      "scalar_value ((b - 240) * 262144 + (c1 - 128) * 4096 + (c2 - 128) * 64 + (c3 - 128))"
      "decode_bytes rest = Some t'"
      "t = ((b - 240) * 262144 + (c1 - 128) * 4096 + (c2 - 128) * 64 + (c3 - 128)) # t'"
proof (cases "b < 128")
  case True
  with assms one show ?thesis by auto
next
  case n1: False
  show ?thesis
  proof (cases "194 \<le> b \<and> b \<le> 223")
    case True
    with assms n1 two show ?thesis
      by (simp split: list.splits if_splits) blast
  next
    case n2: False
    show ?thesis
    proof (cases "224 \<le> b \<and> b \<le> 239")
      case True
      with assms n1 n2 three show ?thesis
        by (simp add: Let_def split: list.splits if_splits) blast
    next
      case n3: False
      show ?thesis
      proof (cases "240 \<le> b \<and> b \<le> 244")
        case True
        with assms n1 n2 n3 four show ?thesis
          by (simp add: Let_def split: list.splits if_splits) blast
      next
        case False
        with assms n1 n2 n3 show ?thesis by simp
      qed
    qed
  qed
qed

lemma encode_ascii: "b < 128 \<Longrightarrow> encode_code_point b = [b]"
  by (simp add: encode_code_point_def)

lemma decode_bytes_roundtrip:
  "decode_bytes ns = Some t \<Longrightarrow> concat (map encode_code_point t) = ns"
proof (induction ns arbitrary: t rule: length_induct)
  case (1 ns)
  show ?case
  proof (cases ns)
    case Nil
    with "1.prems" show ?thesis by simp
  next
    case (Cons b bs)
    from "1.prems"[unfolded Cons] show ?thesis
    proof (cases rule: decode_bytes_Cons)
      case (one t')
      with "1.IH" Cons have "concat (map encode_code_point t') = bs" by simp
      with one Cons show ?thesis by (simp add: encode_ascii)
    next
      case (two c1 rest t')
      with "1.IH" Cons have "concat (map encode_code_point t') = rest" by simp
      with two Cons enc2[OF two(2,3,4)] show ?thesis by simp
    next
      case (three c1 c2 rest t')
      with "1.IH" Cons have "concat (map encode_code_point t') = rest" by simp
      with three Cons enc3[OF three(2,3,4,5,6)] show ?thesis by simp
    next
      case (four c1 c2 c3 rest t')
      with "1.IH" Cons have "concat (map encode_code_point t') = rest" by simp
      with four Cons enc4[OF four(2,3,4,5,6,7)] show ?thesis by simp
    qed
  qed
qed

lemma two_byte_range:
  assumes "194 \<le> b" "b \<le> 223" "continuation c1"
  shows "128 \<le> (b - 192) * 64 + (c1 - 128) \<and> (b - 192) * 64 + (c1 - 128) < 2048"
  using assms unfolding continuation_def by arith

lemma decode_bytes_scalar: "decode_bytes ns = Some t \<Longrightarrow> list_all scalar_value t"
proof (induction ns arbitrary: t rule: length_induct)
  case (1 ns)
  have IH: "list_all scalar_value x" if "length ys < length ns" "decode_bytes ys = Some x"
    for ys x using "1.IH" that by blast
  show ?case
  proof (cases ns)
    case Nil
    with "1.prems" show ?thesis by simp
  next
    case (Cons b bs)
    from "1.prems"[unfolded Cons] show ?thesis
    proof (cases rule: decode_bytes_Cons)
      case (one t')
      have "list_all scalar_value t'"
        by (rule IH[of bs]) (simp_all add: Cons one)
      moreover have "scalar_value b"
        using one(1) by (simp add: scalar_value_def)
      ultimately show ?thesis by (simp add: one)
    next
      case (two c1 rest t')
      have "list_all scalar_value t'"
        by (rule IH[of rest]) (simp_all add: Cons two)
      moreover have "scalar_value ((b - 192) * 64 + (c1 - 128))"
        using two_byte_range[OF two(2,3,4)] by (simp add: scalar_value_def)
      ultimately show ?thesis by (simp add: two)
    next
      case (three c1 c2 rest t')
      have "list_all scalar_value t'"
        by (rule IH[of rest]) (simp_all add: Cons three)
      with three(7) show ?thesis by (simp add: three(9))
    next
      case (four c1 c2 c3 rest t')
      have "list_all scalar_value t'"
        by (rule IH[of rest]) (simp_all add: Cons four)
      with four(8) show ?thesis by (simp add: four(10))
    qed
  qed
qed

lemma decode_bytes_no_CR:
  "decode_bytes ns = Some t \<Longrightarrow> 13 \<notin> set ns \<Longrightarrow> 13 \<notin> set t"
proof (induction ns arbitrary: t rule: length_induct)
  case (1 ns)
  have IH: "13 \<notin> set x"
    if "length ys < length ns" "decode_bytes ys = Some x" "13 \<notin> set ys"
    for ys x using "1.IH" that by blast
  show ?case
  proof (cases ns)
    case Nil
    with "1.prems" show ?thesis by simp
  next
    case (Cons b bs)
    from "1.prems"(1)[unfolded Cons] show ?thesis
    proof (cases rule: decode_bytes_Cons)
      case (one t')
      have "13 \<notin> set t'"
        by (rule IH[of bs]) (use "1.prems"(2) Cons one in simp_all)
      moreover have "b \<noteq> 13" using "1.prems"(2) Cons by auto
      ultimately show ?thesis by (simp add: one)
    next
      case (two c1 rest t')
      have "13 \<notin> set t'"
        by (rule IH[of rest]) (use "1.prems"(2) Cons two in simp_all)
      moreover have "(b - 192) * 64 + (c1 - 128) \<noteq> 13"
        using two_byte_range[OF two(2,3,4)] by arith
      ultimately show ?thesis by (simp add: two)
    next
      case (three c1 c2 rest t')
      have "13 \<notin> set t'"
        by (rule IH[of rest]) (use "1.prems"(2) Cons three in simp_all)
      moreover have "(b - 224) * 4096 + (c1 - 128) * 64 + (c2 - 128) \<noteq> 13"
        using three(6) by arith
      ultimately show ?thesis by (simp add: three(9))
    next
      case (four c1 c2 c3 rest t')
      have "13 \<notin> set t'"
        by (rule IH[of rest]) (use "1.prems"(2) Cons four in simp_all)
      moreover have "(b - 240) * 262144 + (c1 - 128) * 4096 + (c2 - 128) * 64 + (c3 - 128) \<noteq> 13"
        using four(7) by arith
      ultimately show ?thesis by (simp add: four(10))
    qed
  qed
qed

lemma utf8_roundtrip: "utf8_decode bs = Some t \<Longrightarrow> utf8_bytes t = bs"
  by (simp add: utf8_decode_def utf8_bytes_def decode_bytes_roundtrip comp_def)

lemma utf8_decode_scalar: "utf8_decode bs = Some t \<Longrightarrow> list_all scalar_value t"
  by (simp add: utf8_decode_def decode_bytes_scalar)

lemma of_char_CR: "of_char c = (13::nat) \<Longrightarrow> c = CR"
proof -
  assume "of_char c = (13::nat)"
  moreover have "of_char CR = (13::nat)" by (simp add: CR_def)
  ultimately have "(of_char c :: nat) = of_char CR" by simp
  then show ?thesis by (simp only: of_char_eq_iff)
qed

lemma utf8_decode_no_CR: "utf8_decode bs = Some t \<Longrightarrow> CR \<notin> set bs \<Longrightarrow> 13 \<notin> set t"
proof -
  assume d: "utf8_decode bs = Some t" and n: "CR \<notin> set bs"
  have "13 \<notin> set (map of_char bs :: nat list)"
    using n of_char_CR by auto
  with d show ?thesis by (auto simp: utf8_decode_def dest: decode_bytes_no_CR)
qed

lemma scalar_newline: "scalar_value 10"
  by (simp add: scalar_value_def)

lemma read_text_scalar: "list_all scalar_value t \<Longrightarrow> list_all scalar_value (read_text t)"
  by (induction t rule: read_text.induct) (auto simp: scalar_newline)

lemma write_text_scalar:
  "list_all scalar_value linesep \<Longrightarrow> list_all scalar_value s \<Longrightarrow>
     list_all scalar_value (write_text linesep s)"
  by (induction s) (auto simp: write_text_def)

lemma write_text_newline: "write_text linesep [10] = linesep"
  by (simp add: write_text_def)

lemma write_text_posix: "write_text [10] s = s"
  by (induction s) (auto simp: write_text_def)

lemma read_text_no_CR: "13 \<notin> set t \<Longrightarrow> read_text t = t"
  by (induction t rule: read_text.induct) auto

lemma outfile_write_scalar:
  "list_all scalar_value linesep \<Longrightarrow> list_all scalar_value s \<Longrightarrow>
     outfile_write linesep s written = Inr (written @ utf8_bytes (write_text linesep s))"
  by (simp add: outfile_write_def utf8_encode_def write_text_scalar)

lemma utf8_bytes_newline: "utf8_bytes [10] = [LF]"
  by code_simp

lemma merge_loop_prefix:
  assumes "map fs pre = map Inr contents" and "out \<notin> set pre"
    and "map utf8_decode contents = map Some texts"
    and "list_all scalar_value linesep"
  shows "merge_loop visible linesep (pre @ later) out fs written =
     merge_loop visible linesep later out fs
       (written @ concat (map (\<lambda>t. utf8_bytes (write_text linesep (read_text t)) @
                                    utf8_bytes linesep) texts))"
  using assms(1,2,3)
proof (induction pre arbitrary: contents texts written)
  case Nil
  then show ?case by simp
next
  case (Cons fname rest)
  from Cons.prems(1) obtain c cs where c: "contents = c # cs" "fs fname = Inr c"
    "map fs rest = map Inr cs" by (cases contents) auto
  from Cons.prems(3) c(1) obtain t ts where t: "texts = t # ts" "utf8_decode c = Some t"
    "map utf8_decode cs = map Some ts" by (cases texts) auto
  have ne: "fname \<noteq> out" and rest: "out \<notin> set rest"
    using Cons.prems(2) by auto
  have sc: "list_all scalar_value (read_text t)"
    using t(2) by (simp add: utf8_decode_scalar read_text_scalar)
  have r: "infile_read visible out fs written fname = Inr (read_text t)"
    using ne c(2) t(2) by (simp add: infile_read_def)
  have w1: "outfile_write linesep (read_text t) written =
      Inr (written @ utf8_bytes (write_text linesep (read_text t)))"
    by (rule outfile_write_scalar[OF assms(4) sc])
  have w2: "outfile_write linesep [10]
        (written @ utf8_bytes (write_text linesep (read_text t))) =
      Inr ((written @ utf8_bytes (write_text linesep (read_text t))) @ utf8_bytes linesep)"
    using outfile_write_scalar[OF assms(4), of "[10]"]
    by (simp add: scalar_newline write_text_newline)
  have "merge_loop visible linesep ((fname # rest) @ later) out fs written =
      merge_loop visible linesep (rest @ later) out fs
        ((written @ utf8_bytes (write_text linesep (read_text t))) @ utf8_bytes linesep)"
    by (simp add: r w1 w2)
  also have "\<dots> =
      merge_loop visible linesep later out fs
        (((written @ utf8_bytes (write_text linesep (read_text t))) @ utf8_bytes linesep) @
          concat (map (\<lambda>t. utf8_bytes (write_text linesep (read_text t)) @
                                  utf8_bytes linesep) ts))"
    by (rule Cons.IH[OF c(3) rest t(3)])
  finally show ?case by (simp add: t(1))
qed

lemma merge_script_eq:
  assumes "map fs fnames = map Inr contents" and "out \<notin> set fnames"
    and "map utf8_decode contents = map Some texts"
    and "list_all scalar_value linesep"
  shows "merge_script visible linesep fnames out fs =
     (fs(out := Inr (concat (map (\<lambda>t. utf8_bytes (write_text linesep (read_text t)) @
                                         utf8_bytes linesep) texts))),
      Inr (length fnames))"
  using merge_loop_prefix[OF assms, of visible "[]" "[]"]
  by (simp add: merge_script_def)

text \<open>
  An input that cannot be read, or whose bytes are not UTF-8, ends the script with an
  exception after the inputs before it were merged: no count is printed.
\<close>

lemma merge_script_raises:
  assumes "map fs pre = map Inr contents" and "out \<notin> set pre" and "fname \<noteq> out"
    and "map utf8_decode contents = map Some texts"
    and "list_all scalar_value linesep"
  shows "fs fname = Inl e \<Longrightarrow>
           snd (merge_script visible linesep (pre @ fname # rest) out fs) = Inl e"
    and "fs fname = Inr c \<Longrightarrow> utf8_decode c = None \<Longrightarrow>
           snd (merge_script visible linesep (pre @ fname # rest) out fs) =
             Inl (UnicodeDecodeError ''utf-8'')"
  using merge_loop_prefix[OF assms(1,2,4,5), of visible "fname # rest" "[]"] assms(3)
  by (simp_all add: merge_script_def infile_read_def)

lemma verbatim_texts:
  assumes "map utf8_decode contents = map Some texts" and "\<forall>c \<in> set contents. CR \<notin> set c"
  shows "concat (map (\<lambda>t. utf8_bytes (write_text [10] (read_text t)) @ utf8_bytes [10]) texts) =
         concat (map (\<lambda>c. c @ [LF]) contents)"
  using assms
proof (induction contents arbitrary: texts)
  case Nil
  then show ?case by simp
next
  case (Cons c cs)
  from Cons.prems(1) obtain t ts where t: "texts = t # ts" "utf8_decode c = Some t"
    "map utf8_decode cs = map Some ts" by (cases texts) auto
  have "13 \<notin> set t"
    using utf8_decode_no_CR[OF t(2)] Cons.prems(2) by simp
  then have "utf8_bytes (write_text [10] (read_text t)) = c"
    using utf8_roundtrip[OF t(2)] by (simp add: read_text_no_CR write_text_posix)
  moreover have "concat (map (\<lambda>t. utf8_bytes (write_text [10] (read_text t)) @ utf8_bytes [10]) ts) =
         concat (map (\<lambda>c. c @ [LF]) cs)"
    using Cons.IH[OF t(3)] Cons.prems(2) by simp
  ultimately show ?case by (simp add: t(1) utf8_bytes_newline)
qed

lemma output_file_not_input: "output_file \<notin> set files"
  by (simp add: output_file_def files_def)

lemmas merge_eval =
  merge_script_def infile_read_def outfile_write_def utf8_decode_def utf8_encode_def
  utf8_bytes_def encode_code_point_def write_text_def scalar_value_def continuation_def
  unflushed_def no_files_def example_files_def crlf_files_def latin1_files_def line_a_def
  line_b_def
  LF_def CR_def char_of_def bit_0

lemma example_files_eval:
  "map example_files [''A.jsonl'', ''B.jsonl''] = map Inr [line_a @ [LF], line_b @ [LF]]"
  by (simp add: example_files_def)

lemma example_decode_eval:
  "map utf8_decode [line_a @ [LF], line_b @ [LF]] =
     map Some [[123, 34, 97, 34, 58, 49, 125, 10], [123, 34, 98, 34, 58, 50, 125, 10]]"
  by (simp add: merge_eval)

lemma example_no_CR: "\<forall>c \<in> set [line_a @ [LF], line_b @ [LF]]. CR \<notin> set c"
  by (simp add: line_a_def line_b_def LF_def CR_def)

text \<open>
  On a platform whose line separator is \<^verbatim>\<open>\r\n\<close>, the file that ends with \<^verbatim>\<open>\r\n\<close> is merged
  as its line followed by two separators.
\<close>

lemma crlf_windows_eval:
  "fst (merge_script unflushed [13, 10] [''A.jsonl''] ''merged.jsonl'' crlf_files)
       ''merged.jsonl'' = Inr (line_a @ [CR, LF, CR, LF])"
  by (simp add: merge_eval)

lemma latin1_eval:
  "snd (merge_script unflushed [10] [''A.jsonl''] ''merged.jsonl'' latin1_files) =
     Inl (UnicodeDecodeError ''utf-8'')"
  by (simp add: merge_eval)

text \<open>
  With the output file among the inputs, it is read back as empty while nothing has been
  flushed, and contributes its separator only.
\<close>

lemma output_among_inputs_eval:
  "merge_script unflushed [10] [''A.jsonl'', ''merged.jsonl''] ''merged.jsonl'' example_files =
     (example_files(''merged.jsonl'' := Inr (line_a @ [LF, LF, LF])), Inr 2)"
  by (simp add: merge_eval)

text \<open>
  Claim C8 says that, for every ordered list of input files, the output of the merge
  equals the concatenation of the input files' full contents, each followed by exactly
  one newline character. The script reads and writes in text mode, so it fails in two
  ways: an input whose bytes are not UTF-8 raises, and an input with a carriage return is
  not copied verbatim. As amended: when every input file can be read and holds
  well-formed UTF-8, and none of them is the output file, then on every platform (every line
  separator) the script prints the number of input files, and the output file holds, in
  list order, the encoding of each input's decoded text, with \<^verbatim>\<open>\r\n\<close> and \<^verbatim>\<open>\r\<close> turned
  into \<^verbatim>\<open>\n\<close> and then every \<^verbatim>\<open>\n\<close> turned into the line separator, followed by one line
  separator. Where the line separator is \<^verbatim>\<open>\n\<close> and no input contains a carriage return,
  that is each input's full contents, byte for byte, followed by one newline. The same
  holds for the script's own list \<open>files\<close> and \<open>output_file\<close>, which is not among them.
\<close>

theorem merge_script_concatenates:
  assumes "map fs fnames = map Inr contents" and "out \<notin> set fnames"
    and "map utf8_decode contents = map Some texts"
    and "list_all scalar_value linesep"
  shows "snd (merge_script visible linesep fnames out fs) = Inr (length fnames) \<and>
         fst (merge_script visible linesep fnames out fs) out =
           Inr (concat (map (\<lambda>t. utf8_bytes (write_text linesep (read_text t)) @
                                   utf8_bytes linesep) texts)) \<and>
         (linesep = [10] \<and> (\<forall>c \<in> set contents. CR \<notin> set c) \<longrightarrow>
            fst (merge_script visible linesep fnames out fs) out =
              Inr (concat (map (\<lambda>c. c @ [LF]) contents))) \<and>
         (fnames = files \<and> out = output_file \<longrightarrow>
            dataset_merger visible linesep fs = merge_script visible linesep fnames out fs) \<and>
         output_file \<notin> set files"
proof -
  note eq = merge_script_eq[OF assms, of visible]
  have "fst (merge_script visible linesep fnames out fs) out =
      Inr (concat (map (\<lambda>c. c @ [LF]) contents))"
    if "linesep = [10]" and "\<forall>c \<in> set contents. CR \<notin> set c"
    using eq verbatim_texts[OF assms(3) that(2)] that(1) by simp
  with eq show ?thesis
    by (simp add: dataset_merger_def output_file_not_input)
qed

text \<open>
  The merge scenario of the specification: the files \<^verbatim>\<open>{"a":1}\n\<close> and \<^verbatim>\<open>{"b":2}\n\<close> give
  \<^verbatim>\<open>{"a":1}\n\n{"b":2}\n\n\<close>, and the count is 2.
\<close>

theorem merge_script_concatenates_witness:
  "map example_files [''A.jsonl'', ''B.jsonl''] = map Inr [line_a @ [LF], line_b @ [LF]] \<and>
   ''merged.jsonl'' \<notin> set [''A.jsonl'', ''B.jsonl''] \<and>
   map utf8_decode [line_a @ [LF], line_b @ [LF]] =
     map Some [[123, 34, 97, 34, 58, 49, 125, 10], [123, 34, 98, 34, 58, 50, 125, 10]] \<and>
   list_all scalar_value [10] \<and>
   CR \<notin> set (line_a @ [LF]) \<and> CR \<notin> set (line_b @ [LF]) \<and>
   snd (merge_script unflushed [10] [''A.jsonl'', ''B.jsonl''] ''merged.jsonl'' example_files) =
     Inr 2 \<and>
   fst (merge_script unflushed [10] [''A.jsonl'', ''B.jsonl''] ''merged.jsonl'' example_files)
       ''merged.jsonl'' =
     Inr (line_a @ [LF, LF] @ line_b @ [LF, LF])"
proof -
  have o: "''merged.jsonl'' \<notin> set [''A.jsonl'', ''B.jsonl'']"
    by simp
  have s: "list_all scalar_value [10]"
    by (simp add: scalar_newline)
  from merge_script_concatenates
         [OF example_files_eval o example_decode_eval s, of unflushed] example_no_CR
  have "snd (merge_script unflushed [10] [''A.jsonl'', ''B.jsonl''] ''merged.jsonl''
               example_files) = Inr (length [''A.jsonl'', ''B.jsonl'']) \<and>
        fst (merge_script unflushed [10] [''A.jsonl'', ''B.jsonl''] ''merged.jsonl''
               example_files) ''merged.jsonl'' =
          Inr (concat (map (\<lambda>c. c @ [LF]) [line_a @ [LF], line_b @ [LF]]))"
    by blast
  then have "snd (merge_script unflushed [10] [''A.jsonl'', ''B.jsonl''] ''merged.jsonl''
               example_files) = Inr 2 \<and>
        fst (merge_script unflushed [10] [''A.jsonl'', ''B.jsonl''] ''merged.jsonl''
               example_files) ''merged.jsonl'' =
          Inr (line_a @ [LF, LF] @ line_b @ [LF, LF])"
    by simp
  with example_files_eval o example_decode_eval s example_no_CR show ?thesis
    by simp
qed

text \<open>
  The claim as stated fails for an input whose line ends with carriage return and line
  feed, on a platform whose line separator is \<^verbatim>\<open>\n\<close>: the file is read and is well-formed
  UTF-8, and the output holds the line followed by two line feeds, not the file's
  contents followed by one.
\<close>

theorem merge_script_translates_newlines:
  "crlf_files ''A.jsonl'' = Inr (line_a @ [CR, LF]) \<and>
   utf8_decode (line_a @ [CR, LF]) = Some [123, 34, 97, 34, 58, 49, 125, 13, 10] \<and>
   merge_script unflushed [10] [''A.jsonl''] ''merged.jsonl'' crlf_files =
     (crlf_files(''merged.jsonl'' := Inr (line_a @ [LF, LF])), Inr 1) \<and>
   line_a @ [LF, LF] \<noteq> (line_a @ [CR, LF]) @ [LF]"
  by (simp add: merge_eval)

section \<open>The minimal scraper\<close>

lemma bodies_Inr:
  "bodies ns = Inr bs \<Longrightarrow>
     list_all2 (\<lambda>nd b. \<exists>c. nd = Comment c \<and> comment_body c = Present b) ns bs"
  by (induction ns arbitrary: bs rule: bodies.induct) (auto split: attr.splits sum.splits)

lemma minimal_scraper_eq:
  "minimal_scraper posts data = Inr data' \<Longrightarrow>
     \<exists>ps rows. iter_list posts = Inr ps \<and> data' = data @ rows \<and>
        list_all2 (\<lambda>p row. minimal_top_comments p = Inr (m_comments row)) ps rows"
proof (induction posts data arbitrary: data' rule: minimal_scraper.induct)
  case (1 data)
  then show ?case by simp
next
  case (2 e data)
  then show ?case by simp
next
  case (3 submission rest data)
  from "3.prems" obtain tc st where tc: "minimal_top_comments submission = Inr tc"
    "post_selftext submission = Present st"
    by (auto split: sum.splits attr.splits)
  let ?row = "\<lparr>m_title = post_title submission, m_selftext = st, m_comments = tc\<rparr>"
  from "3.prems" tc have "minimal_scraper rest (data @ [?row]) = Inr data'" by simp
  from "3.IH"[OF tc this] obtain ps rows where
    "iter_list rest = Inr ps" "data' = (data @ [?row]) @ rows"
    "list_all2 (\<lambda>p row. minimal_top_comments p = Inr (m_comments row)) ps rows" by blast
  then show ?case using tc
    by (intro exI[of _ "submission # ps"] exI[of _ "?row # rows"]) simp
qed

lemma mixed_minimal_eval:
  "minimal_top_comments (example_post ''A title'' None mixed_comments) =
     Inr [Some '' low [deleted] '', Some ''[removed]'', Some ''best'']"
  by code_simp

lemma mixed_extract_eval:
  "snd (extract_top_comments (example_post ''A title'' None mixed_comments) 5) =
     Inr [example_dict ''c3'' ''best'' 9, example_dict ''c1'' ''low'' 1]"
  by code_simp

text \<open>
  Claim C10: for every post it processes, the minimal scraper records the bodies of the
  first 5 elements of the post's comment list, in the provider's order, as they are: no
  ranking by score, no filter for deleted or removed comments, no sanitization. Its
  selection differs from that of \<open>extract_top_comments\<close> with \<open>top_n = 5\<close>: for the
  comments \<^verbatim>\<open>" low [deleted] "\<close> (score 1), \<^verbatim>\<open>"[removed]"\<close> (score 5) and \<^verbatim>\<open>"best"\<close> (score
  9) it records the three bodies in that order, while the extractor returns \<^verbatim>\<open>"best"\<close>
  and \<^verbatim>\<open>"low"\<close>.
\<close>

theorem minimal_scraper_takes_first_five_bodies:
  "(minimal_top_comments submission = Inr bs \<longrightarrow>
      (\<exists>forest. iter_list (comments submission) = Inr forest \<and>
         list_all2 (\<lambda>nd b. \<exists>c. nd = Comment c \<and> comment_body c = Present b)
           (take 5 forest) bs)) \<and>
   (minimal_scraper posts [] = Inr data \<longrightarrow>
      (\<exists>ps. iter_list posts = Inr ps \<and>
         list_all2 (\<lambda>p row. minimal_top_comments p = Inr (m_comments row)) ps data)) \<and>
   minimal_top_comments (example_post ''A title'' None mixed_comments) =
     Inr [Some '' low [deleted] '', Some ''[removed]'', Some ''best''] \<and>
   snd (extract_top_comments (example_post ''A title'' None mixed_comments) 5) =
     Inr [example_dict ''c3'' ''best'' 9, example_dict ''c1'' ''low'' 1] \<and>
   map (\<lambda>r. Some (rec_body r)) [example_dict ''c3'' ''best'' 9, example_dict ''c1'' ''low'' 1] \<noteq>
     [Some '' low [deleted] '', Some ''[removed]'', Some ''best'']"
proof -
  have a: "\<exists>forest. iter_list (comments submission) = Inr forest \<and>
         list_all2 (\<lambda>nd b. \<exists>c. nd = Comment c \<and> comment_body c = Present b)
           (take 5 forest) bs"
    if "minimal_top_comments submission = Inr bs"
    using that
    by (auto simp: minimal_top_comments_def dest: bodies_Inr split: option.splits sum.splits)
  have b: "\<exists>ps. iter_list posts = Inr ps \<and>
         list_all2 (\<lambda>p row. minimal_top_comments p = Inr (m_comments row)) ps data"
    if "minimal_scraper posts [] = Inr data"
    using minimal_scraper_eq[OF that] by simp
  from a b mixed_minimal_eval mixed_extract_eval show ?thesis
    by simp
qed

theorem minimal_scraper_takes_first_five_bodies_witness:
  "minimal_top_comments (example_post ''A title'' None tie_comments) =
     Inr [Some ''first'', Some ''top'', Some ''second'', Some ''third''] \<and>
   (\<exists>forest. iter_list (comments (example_post ''A title'' None tie_comments)) = Inr forest \<and>
      list_all2 (\<lambda>nd b. \<exists>c. nd = Comment c \<and> comment_body c = Present b) (take 5 forest)
        [Some ''first'', Some ''top'', Some ''second'', Some ''third'']) \<and>
   minimal_scraper (Yield (example_post ''A title'' None tie_comments) Exhausted) [] =
     Inr [\<lparr>m_title = ''A title'', m_selftext = [],
           m_comments = [Some ''first'', Some ''top'', Some ''second'', Some ''third'']\<rparr>] \<and>
   (\<exists>ps. iter_list (Yield (example_post ''A title'' None tie_comments) Exhausted) = Inr ps \<and>
      list_all2 (\<lambda>p row. minimal_top_comments p = Inr (m_comments row)) ps
        [\<lparr>m_title = ''A title'', m_selftext = [],
          m_comments = [Some ''first'', Some ''top'', Some ''second'', Some ''third'']\<rparr>])"
proof -
  let ?p = "example_post ''A title'' None tie_comments"
  let ?bs = "[Some ''first'', Some ''top'', Some ''second'', Some ''third'']"
  let ?data = "[\<lparr>m_title = ''A title'', m_selftext = [], m_comments = ?bs\<rparr>]"
  have m: "minimal_top_comments ?p = Inr ?bs"
    by code_simp
  have s: "minimal_scraper (Yield ?p Exhausted) [] = Inr ?data"
    by code_simp
  note inst = minimal_scraper_takes_first_five_bodies[of ?p ?bs "Yield ?p Exhausted" ?data]
  from inst m have a: "\<exists>forest. iter_list (comments ?p) = Inr forest \<and>
      list_all2 (\<lambda>nd b. \<exists>c. nd = Comment c \<and> comment_body c = Present b) (take 5 forest) ?bs"
    by blast
  from inst s have b: "\<exists>ps. iter_list (Yield ?p Exhausted) = Inr ps \<and>
      list_all2 (\<lambda>p row. minimal_top_comments p = Inr (m_comments row)) ps ?data"
    by blast
  from m a s b show ?thesis by blast
qed

end
